theory Spec2Isabelle
  imports Main "HOL-Library.Word"
begin

section \<open>Architecture-dependent parameters\<close>

text \<open>
  The header selects its parameters with a chain of \<^verbatim>\<open>#ifdef\<close>s, one branch per
  architecture. The model keeps the four branches: every function that depends on a
  parameter takes the architecture as its first argument.
\<close>

datatype arch = X86 | PPC64 | IA64 | X86_64

fun PAGE_SIZE :: "arch \<Rightarrow> nat" where
  "PAGE_SIZE X86 = 4096"
| "PAGE_SIZE PPC64 = 4096"
| "PAGE_SIZE IA64 = 16384"
| "PAGE_SIZE X86_64 = 4096"

fun PAGE_BITS :: "arch \<Rightarrow> nat" where
  "PAGE_BITS X86 = 12"
| "PAGE_BITS PPC64 = 12"
| "PAGE_BITS IA64 = 14"
| "PAGE_BITS X86_64 = 12"

definition CACHE_LINE_SIZE :: nat where
  "CACHE_LINE_SIZE = 128"

fun SUPERPAGE_SIZE :: "arch \<Rightarrow> nat" where
  "SUPERPAGE_SIZE X86 = 4 * 1024 * 1024"
| "SUPERPAGE_SIZE PPC64 = 16 * 1024 * 1024"
| "SUPERPAGE_SIZE IA64 = 256 * 1024 * 1024"
| "SUPERPAGE_SIZE X86_64 = 8 * 1024 * 1024"

fun BUDDY_ORDER_MAX :: "arch \<Rightarrow> nat" where
  "BUDDY_ORDER_MAX X86 = 11"
| "BUDDY_ORDER_MAX PPC64 = 13"
| "BUDDY_ORDER_MAX IA64 = 15"
| "BUDDY_ORDER_MAX X86_64 = 12"

text \<open>\<^verbatim>\<open>sizeof(void*)\<close>, which is also \<^verbatim>\<open>sizeof(size_t)\<close> and \<^verbatim>\<open>sizeof(unsigned long)\<close>
  on the four targets (ILP32 for x86, LP64 for the others).\<close>

fun PTR_BYTES :: "arch \<Rightarrow> nat" where
  "PTR_BYTES X86 = 4"
| "PTR_BYTES PPC64 = 8"
| "PTR_BYTES IA64 = 8"
| "PTR_BYTES X86_64 = 8"

definition PAGES_PER_SUPERPAGE :: "arch \<Rightarrow> nat" where
  "PAGES_PER_SUPERPAGE a = SUPERPAGE_SIZE a div PAGE_SIZE a"

definition PAGE_PTR_BITS :: "arch \<Rightarrow> nat" where
  "PAGE_PTR_BITS a = PTR_BYTES a * 8 - PAGE_BITS a"

definition HEADER_SIZE :: "arch \<Rightarrow> nat" where
  "HEADER_SIZE a = PTR_BYTES a"

definition SUPERPAGE_BITS :: nat where
  "SUPERPAGE_BITS = 10"

definition SUPERPAGE_PTR_BITS :: "arch \<Rightarrow> nat" where
  "SUPERPAGE_PTR_BITS a = PTR_BYTES a * 8 - SUPERPAGE_BITS"

definition MAX_PRIVATE_INACTIVE :: nat where
  "MAX_PRIVATE_INACTIVE = 4"

definition MAX_GLOBAL_INACTIVE :: nat where
  "MAX_GLOBAL_INACTIVE = 0"

definition MIN_PAGEBLOCK_SIZE :: "arch \<Rightarrow> nat" where
  "MIN_PAGEBLOCK_SIZE a = 4 * PAGE_SIZE a"

definition MAX_PAGEBLOCK_SIZE :: "arch \<Rightarrow> nat" where
  "MAX_PAGEBLOCK_SIZE a = 4 * 16 * PAGE_SIZE a"

definition OBJECT_GRANULARITY :: "arch \<Rightarrow> nat" where
  "OBJECT_GRANULARITY a = HEADER_SIZE a"

definition MAX_OBJECT_SIZE :: nat where
  "MAX_OBJECT_SIZE = 16576"

definition OBJECT_SIZE_CLASSES :: nat where
  "OBJECT_SIZE_CLASSES = 256"

definition OBJECTS_PER_PAGEBLOCK :: nat where
  "OBJECTS_PER_PAGEBLOCK = 1024"

definition PAGEBLOCK_SIZE_CLASSES :: nat where
  "PAGEBLOCK_SIZE_CLASSES = 5"

text \<open>\<^verbatim>\<open>ORPHAN\<close> is \<^verbatim>\<open>UINT_MAX\<close>; \<^verbatim>\<open>unsigned int\<close> has 32 bits on the four targets.\<close>

definition ORPHAN :: nat where
  "ORPHAN = 2 ^ 32 - 1"

definition RADIX_BITS :: "arch \<Rightarrow> nat" where
  "RADIX_BITS a = PAGE_PTR_BITS a"

definition RADIX_DEPTH :: nat where
  "RADIX_DEPTH = 3"

definition RADIX_INTERIOR_BITS :: "arch \<Rightarrow> nat" where
  "RADIX_INTERIOR_BITS a = (RADIX_BITS a + (RADIX_DEPTH - 1)) div RADIX_DEPTH"

definition RADIX_LEAF_BITS :: "arch \<Rightarrow> nat" where
  "RADIX_LEAF_BITS a = RADIX_BITS a - 2 * RADIX_INTERIOR_BITS a"

definition RADIX_INTERIOR_SIZE :: "arch \<Rightarrow> nat" where
  "RADIX_INTERIOR_SIZE a = 2 ^ RADIX_INTERIOR_BITS a"

definition RADIX_LEAF_SIZE :: "arch \<Rightarrow> nat" where
  "RADIX_LEAF_SIZE a = 2 ^ RADIX_LEAF_BITS a"

section \<open>Size classes\<close>

text \<open>The three constant tables of the allocator, entry for entry.\<close>

definition base :: "nat list" where
  "base =
    [0, 16, 24, 28, 30, 31, 31, 32, 32, 32,
     32, 33, 33, 33, 33, 34, 34, 34, 34, 35,
     35, 35, 35, 36, 36, 36, 36, 37, 37, 37,
     37, 38, 38, 38, 38, 39, 39, 39, 39, 40,
     40, 40, 40, 41, 41, 41, 41, 42, 42, 42,
     42, 43, 43, 43, 43, 44, 44, 44, 44, 45,
     45, 45, 45, 46, 46, 46, 46, 47, 47, 47,
     47, 48, 48, 48, 48, 49, 49, 49, 49, 50,
     50, 50, 50, 51, 51, 51, 51, 52, 52, 52,
     52, 53, 53, 53, 53, 54, 54, 54, 54, 55,
     55, 55, 55, 56, 56, 56, 56, 57, 57, 57,
     57, 58, 58, 58, 58, 59, 59, 59, 59, 60,
     60, 60, 60, 61, 61, 61, 61, 62, 62, 62,
     62, 63, 63, 63, 63, 64, 64, 64, 64, 65,
     65, 65, 65, 66, 66, 66, 66, 67, 67, 67,
     67, 68, 68, 68, 68, 69, 69, 69, 69, 70,
     70, 70, 70, 71, 71, 71, 71, 72, 72, 72,
     72, 73, 73, 73, 73, 74, 74, 74, 74, 75,
     75, 75, 75, 76, 76, 76, 76, 77, 77, 77,
     77, 78, 78, 78, 78, 79, 79, 79, 79, 80,
     80, 80, 80, 81, 81, 81, 81, 82, 82, 82,
     82, 83, 83, 83, 83, 84, 84, 84, 84, 85,
     85, 85, 85, 86, 86, 86, 86, 87, 87, 87,
     87, 88, 88, 88, 88, 89, 89, 89, 89, 90,
     90, 90, 90, 91, 91, 91, 91, 92, 92, 92,
     92, 93, 93, 93, 93, 94, 94, 94, 94]"

definition factor :: "nat list" where
  "factor =
    [4, 8, 16, 32, 64, 128, 256, 256, 256, 256,
     256, 256, 256, 256, 256, 256, 256, 256, 256, 256,
     256, 256, 256, 256, 256, 256, 256, 256, 256, 256,
     256, 256, 256, 256, 256, 256, 256, 256, 256, 256,
     256, 256, 256, 256, 256, 256, 256, 256, 256, 256,
     256, 256, 256, 256, 256, 256, 256, 256, 256, 256,
     256, 256, 256, 256, 256, 256, 256, 256, 256, 256,
     256, 256, 256, 256, 256, 256, 256, 256, 256, 256,
     256, 256, 256, 256, 256, 256, 256, 256, 256, 256,
     256, 256, 256, 256, 256, 256, 256, 256, 256, 256,
     256, 256, 256, 256, 256, 256, 256, 256, 256, 256,
     256, 256, 256, 256, 256, 256, 256, 256, 256, 256,
     256, 256, 256, 256, 256, 256, 256, 256, 256, 256,
     256, 256, 256, 256, 256, 256, 256, 256, 256, 256,
     256, 256, 256, 256, 256, 256, 256, 256, 256, 256,
     256, 256, 256, 256, 256, 256, 256, 256, 256, 256,
     256, 256, 256, 256, 256, 256, 256, 256, 256, 256,
     256, 256, 256, 256, 256, 256, 256, 256, 256, 256,
     256, 256, 256, 256, 256, 256, 256, 256, 256, 256,
     256, 256, 256, 256, 256, 256, 256, 256, 256, 256,
     256, 256, 256, 256, 256, 256, 256, 256, 256, 256,
     256, 256, 256, 256, 256, 256, 256, 256, 256, 256,
     256, 256, 256, 256, 256, 256, 256, 256, 256, 256,
     256, 256, 256, 256, 256, 256, 256, 256, 256, 256,
     256, 256, 256, 256, 256, 256, 256, 256, 256, 256,
     256, 256, 256, 256, 256, 256, 256, 256, 256]"

definition reverse :: "nat list" where
  "reverse =
    [4, 8, 12, 16, 20, 24, 28, 32, 36, 40,
     44, 48, 52, 56, 60, 64, 72, 80, 88, 96,
     104, 112, 120, 128, 144, 160, 176, 192, 224, 256,
     320, 448, 704, 960, 1216, 1472, 1728, 1984, 2240, 2496,
     2752, 3008, 3264, 3520, 3776, 4032, 4288, 4544, 4800, 5056,
     5312, 5568, 5824, 6080, 6336, 6592, 6848, 7104, 7360, 7616,
     7872, 8128, 8384, 8640, 8896, 9152, 9408, 9664, 9920, 10176,
     10432, 10688, 10944, 11200, 11456, 11712, 11968, 12224, 12480, 12736,
     12992, 13248, 13504, 13760, 14016, 14272, 14528, 14784, 15040, 15296,
     15552, 15808, 16064, 16320, 16576]"

text \<open>
  Reading a C array past its end has no defined result. The model reads a table through
  \<open>table_at\<close>, which yields \<open>None\<close> outside the table, so that an out-of-range read is
  visible in every function that depends on it.
\<close>

definition table_at :: "nat list \<Rightarrow> nat \<Rightarrow> nat option" where
  "table_at t i = (if i < length t then Some (t ! i) else None)"

text \<open>
  \<^verbatim>\<open>quick_log2\<close> is a \<^verbatim>\<open>switch\<close> over the powers of two up to 16384 and fails an
  assertion on any other argument (\<open>None\<close>). The results for 8192 and 16384 are the ones
  the source returns.
\<close>

definition quick_log2 :: "nat \<Rightarrow> nat option" where
  "quick_log2 x =
     (if x = 1 then Some 0
      else if x = 2 then Some 1
      else if x = 4 then Some 2
      else if x = 8 then Some 3
      else if x = 16 then Some 4
      else if x = 32 then Some 5
      else if x = 64 then Some 6
      else if x = 128 then Some 7
      else if x = 256 then Some 8
      else if x = 512 then Some 9
      else if x = 1024 then Some 10
      else if x = 2048 then Some 11
      else if x = 4096 then Some 12
      else if x = 8192 then Some 12
      else if x = 16384 then Some 13
      else None)"

text \<open>
  \<^verbatim>\<open>compute_size_class\<close>: the size is raised to the granularity, \<^verbatim>\<open>bin\<close> and
  \<^verbatim>\<open>position\<close> are computed for half cache lines (64 bytes), and both are corrected
  when the size is a multiple of 64. The size is at least 4 after the first step, so
  \<open>size - 1\<close> and \<open>size - 2\<close> do not wrap.
\<close>

definition compute_size_class :: "arch \<Rightarrow> nat \<Rightarrow> nat option" where
  "compute_size_class a size0 =
     (let size = (if size0 < OBJECT_GRANULARITY a then OBJECT_GRANULARITY a else size0);
          bin0 = size div (CACHE_LINE_SIZE div 2);
          position0 = (size - 1) mod (CACHE_LINE_SIZE div 2);
          bin = (if size mod (CACHE_LINE_SIZE div 2) = 0
                 then (size - 1) div (CACHE_LINE_SIZE div 2) else bin0);
          position = (if size mod (CACHE_LINE_SIZE div 2) = 0
                      then (size - 2) mod (CACHE_LINE_SIZE div 2) else position0)
      in case table_at base bin of
           None \<Rightarrow> None
         | Some b \<Rightarrow>
             (case table_at factor bin of
                None \<Rightarrow> None
              | Some f \<Rightarrow> Some (b + position div f)))"

text \<open>\<^verbatim>\<open>malloc_compute_size_class\<close> and \<^verbatim>\<open>free_compute_size_class\<close> repeat the body of
  \<^verbatim>\<open>compute_size_class\<close> between two profiling counters.\<close>

definition malloc_compute_size_class :: "arch \<Rightarrow> nat \<Rightarrow> nat option" where
  "malloc_compute_size_class a size0 = compute_size_class a size0"

definition free_compute_size_class :: "arch \<Rightarrow> nat \<Rightarrow> nat option" where
  "free_compute_size_class a size0 = compute_size_class a size0"

definition reverse_size_class :: "nat \<Rightarrow> nat option" where
  "reverse_size_class cls = table_at reverse cls"

section \<open>Data model\<close>

text \<open>
  Addresses, sizes and counters are natural numbers. Where the C type is narrower than
  the value written into it (the \<^verbatim>\<open>unsigned short\<close> slot indices and counters, the bit
  fields of a page record, \<^verbatim>\<open>size_t\<close> products) the reduction is written out with
  \<open>mod\<close>. \<open>0\<close> is the null pointer.

  A function of the source that can end the process returns a sum: \<open>Inl\<close> with the way
  the process ended, or \<open>Inr\<close> with its result and the new state.
\<close>

datatype error =
    Exit             \<comment> \<open>\<^verbatim>\<open>exit(1)\<close>\<close>
  | AssertFailed     \<comment> \<open>\<^verbatim>\<open>assert(0)\<close> in \<^verbatim>\<open>quick_log2\<close>\<close>
  | Segfault         \<comment> \<open>a null pointer is dereferenced\<close>
  | OutOfBounds      \<comment> \<open>a table or array is read outside its bounds\<close>

text \<open>Calls that leave the allocator: the page provider and the libc block operations.\<close>

datatype event =
    Mmap nat nat           \<comment> \<open>address returned, size\<close>
  | Munmap nat nat         \<comment> \<open>start, length\<close>
  | Mremap nat nat nat nat \<comment> \<open>old address, old size, new size, address returned\<close>
  | Memset nat nat nat     \<comment> \<open>destination, byte, length\<close>
  | Memcpy nat nat nat     \<comment> \<open>destination, source, length\<close>

datatype object_type = OBJECT_SMALL | OBJECT_MEDIUM | OBJECT_LARGE

text \<open>
  \<^verbatim>\<open>union page_record\<close>: a two-bit tag and, by tag, the page number of the pageblock,
  the pair of \<^verbatim>\<open>log_size\<close> and shifted superpage header address, or the byte size. The
  widths of the bit fields are applied where a record is built (\<open>make_record\<close>).
\<close>

datatype page_record =
    Small (pr_pageblock: nat)
  | Medium (pr_log_size: nat) (pr_sph: nat)
  | Large (pr_size: nat)

type_synonym radix_leaf = "nat \<Rightarrow> page_record"
type_synonym radix_level2 = "nat \<Rightarrow> radix_leaf option"
type_synonym radix_interior = "nat \<Rightarrow> radix_level2 option"

text \<open>
  \<^verbatim>\<open>struct double_list\<close> and the LIFO queues are intrusive linked lists. The model keeps
  the sequence of nodes from head to tail and leaves the links out.
\<close>

record buddy_order =
  free_list :: "nat list"
  bitmap :: "nat \<Rightarrow> bool"

record superpage =
  page_pool :: nat
  buddy :: "nat \<Rightarrow> buddy_order"
  largest_free_order :: nat

record queue_node =
  qn_next :: nat
  qn_count :: nat

record pageblock =
  sph :: nat
  freed :: nat
  unallocated :: nat
  owning_heap :: nat
  object_size :: nat
  num_free_objects :: int
  mem_pool_size :: nat
  owning_thread :: nat
  garbage_head :: queue_node
  mem_pool :: nat

record quickieblock =
  q_freed :: nat
  q_unallocated :: nat
  q_num_free_objects :: int

text \<open>
  The state of the allocator. \<open>mmap_results\<close> is the page provider: the addresses its
  next successful calls return, in order; when it is empty, \<^verbatim>\<open>mmap\<close> fails.
  \<open>superpages\<close> and \<open>pageblocks\<close> read memory at an address as a header of that
  type; \<open>slot_next\<close> reads the \<^verbatim>\<open>queue_node.next\<close> stored in the first bytes of an
  object. The thread-local arrays are indexed by the thread first. The build is the
  one without \<^verbatim>\<open>NUMA\<close>, so the superpage list and its header pool are global.
\<close>

record state =
  mmap_results :: "nat list"
  events :: "event list"
  radix_root :: "radix_interior option"
  superpage_list :: "nat list"
  sph_pageblocks :: quickieblock
  superpages :: "nat \<Rightarrow> superpage"
  pageblocks :: "nat \<Rightarrow> pageblock"
  slot_next :: "nat \<Rightarrow> nat"
  local_heap :: "nat \<Rightarrow> nat \<Rightarrow> nat list"
  local_inactive_pageblocks :: "nat \<Rightarrow> nat \<Rightarrow> nat list \<times> nat"
  global_partial_pageblocks :: "nat \<Rightarrow> nat list \<times> nat"
  global_free_pageblocks :: "nat \<Rightarrow> nat list \<times> nat"

text \<open>\<^verbatim>\<open>sizeof(superpage_t)\<close>: the fields take 306, 922, 2478 and 898 bytes and the type is
  aligned to \<open>2 ^ SUPERPAGE_BITS\<close>.\<close>

fun SUPERPAGE_HEADER_SIZE :: "arch \<Rightarrow> nat" where
  "SUPERPAGE_HEADER_SIZE X86 = 1024"
| "SUPERPAGE_HEADER_SIZE PPC64 = 1024"
| "SUPERPAGE_HEADER_SIZE IA64 = 3072"
| "SUPERPAGE_HEADER_SIZE X86_64 = 1024"

text \<open>The state before the first call: static storage is zero.\<close>

definition empty_buddy_order :: buddy_order where
  "empty_buddy_order = \<lparr>free_list = [], bitmap = (\<lambda>_. False)\<rparr>"

definition zero_superpage :: superpage where
  "zero_superpage = \<lparr>page_pool = 0, buddy = (\<lambda>_. empty_buddy_order), largest_free_order = 0\<rparr>"

definition zero_pageblock :: pageblock where
  "zero_pageblock =
     \<lparr>sph = 0, freed = 0, unallocated = 0, owning_heap = 0, object_size = 0,
      num_free_objects = 0, mem_pool_size = 0, owning_thread = 0,
      garbage_head = \<lparr>qn_next = 0, qn_count = 0\<rparr>, mem_pool = 0\<rparr>"

definition fresh :: "nat list \<Rightarrow> state" where
  "fresh provider =
     \<lparr>mmap_results = provider, events = [], radix_root = None, superpage_list = [],
      sph_pageblocks = \<lparr>q_freed = 0, q_unallocated = 0, q_num_free_objects = 0\<rparr>,
      superpages = (\<lambda>_. zero_superpage), pageblocks = (\<lambda>_. zero_pageblock),
      slot_next = (\<lambda>_. 0), local_heap = (\<lambda>_ _. []),
      local_inactive_pageblocks = (\<lambda>_ _. ([], 0)),
      global_partial_pageblocks = (\<lambda>_. ([], 0)),
      global_free_pageblocks = (\<lambda>_. ([], 0))\<rparr>"

section \<open>Lists and queues\<close>

definition double_list_insert_front :: "nat \<Rightarrow> nat list \<Rightarrow> nat list" where
  "double_list_insert_front new_node list = new_node # list"

text \<open>Nothing moves when head and tail are the same node (or both null).\<close>

definition double_list_rotate_back :: "nat list \<Rightarrow> nat list" where
  "double_list_rotate_back list =
     (case list of [] \<Rightarrow> [] | [x] \<Rightarrow> [x] | x # y # ys \<Rightarrow> y # ys @ [x])"

text \<open>The source unlinks the node through its own \<^verbatim>\<open>prev\<close> and \<^verbatim>\<open>next\<close>; every call
  passes a node that is on the list.\<close>

definition double_list_remove :: "nat \<Rightarrow> nat list \<Rightarrow> nat list" where
  "double_list_remove node list = remove1 node list"

definition list_head :: "nat list \<Rightarrow> nat" where
  "list_head list = (case list of [] \<Rightarrow> 0 | x # _ \<Rightarrow> x)"

definition seq_lifo_enqueue :: "nat list \<Rightarrow> nat \<Rightarrow> nat list" where
  "seq_lifo_enqueue q element = element # q"

definition seq_lifo_dequeue :: "nat list \<Rightarrow> nat \<times> nat list" where
  "seq_lifo_dequeue q = (case q of [] \<Rightarrow> (0, []) | x # rest \<Rightarrow> (x, rest))"

text \<open>One thread at a time runs in the model, so the compare-and-swap of the lock-free
  queues succeeds at its first attempt.\<close>

definition lf_lifo_enqueue :: "nat list \<Rightarrow> nat \<Rightarrow> nat list" where
  "lf_lifo_enqueue q element = element # q"

definition lf_lifo_dequeue :: "nat list \<Rightarrow> nat \<times> nat list" where
  "lf_lifo_dequeue q = (case q of [] \<Rightarrow> (0, []) | x # rest \<Rightarrow> (x, rest))"

section \<open>Page provider\<close>

text \<open>\<^verbatim>\<open>page_alloc\<close>: when \<^verbatim>\<open>mmap\<close> fails, the function prints a message and calls
  \<^verbatim>\<open>exit(1)\<close>.\<close>

definition page_alloc :: "nat \<Rightarrow> state \<Rightarrow> error + (nat \<times> state)" where
  "page_alloc sz st =
     (case mmap_results st of
        [] \<Rightarrow> Inl Exit
      | addr # rest \<Rightarrow>
          Inr (addr, st\<lparr>mmap_results := rest, events := events st @ [Mmap addr sz]\<rparr>))"

definition page_free :: "nat \<Rightarrow> nat \<Rightarrow> state \<Rightarrow> state" where
  "page_free start len st = st\<lparr>events := events st @ [Munmap start len]\<rparr>"

section \<open>Radix tree\<close>

text \<open>\<^verbatim>\<open>sizeof(radix_interior_t)\<close> and \<^verbatim>\<open>sizeof(radix_leaf_t)\<close>; a page record is one
  \<^verbatim>\<open>unsigned long\<close>.\<close>

definition radix_interior_bytes :: "arch \<Rightarrow> nat" where
  "radix_interior_bytes a = RADIX_INTERIOR_SIZE a * PTR_BYTES a"

definition radix_leaf_bytes :: "arch \<Rightarrow> nat" where
  "radix_leaf_bytes a = RADIX_LEAF_SIZE a * PTR_BYTES a"

definition radix_interior_alloc :: "arch \<Rightarrow> state \<Rightarrow> error + (nat \<times> state)" where
  "radix_interior_alloc a st = page_alloc (radix_interior_bytes a) st"

definition radix_leaf_alloc :: "arch \<Rightarrow> state \<Rightarrow> error + (nat \<times> state)" where
  "radix_leaf_alloc a st = page_alloc (radix_leaf_bytes a) st"

definition radix_level1 :: "arch \<Rightarrow> nat \<Rightarrow> nat" where
  "radix_level1 a page = page div 2 ^ (RADIX_INTERIOR_BITS a + RADIX_LEAF_BITS a)"

definition radix_level2 :: "arch \<Rightarrow> nat \<Rightarrow> nat" where
  "radix_level2 a page = (page div 2 ^ RADIX_LEAF_BITS a) mod RADIX_INTERIOR_SIZE a"

definition radix_level3 :: "arch \<Rightarrow> nat \<Rightarrow> nat" where
  "radix_level3 a page = page mod RADIX_LEAF_SIZE a"

text \<open>The record written for a page, with the bit-field widths of the union.\<close>

definition make_record :: "arch \<Rightarrow> object_type \<Rightarrow> nat \<Rightarrow> nat \<Rightarrow> nat \<Rightarrow> page_record" where
  "make_record a ty ptr sz log_size =
     (case ty of
        OBJECT_SMALL \<Rightarrow> Small ((ptr div 2 ^ PAGE_BITS a) mod 2 ^ PAGE_PTR_BITS a)
      | OBJECT_MEDIUM \<Rightarrow>
          Medium (log_size mod 2 ^ 6) ((ptr div 2 ^ SUPERPAGE_BITS) mod 2 ^ SUPERPAGE_PTR_BITS a)
      | OBJECT_LARGE \<Rightarrow> Large (sz mod 2 ^ (PTR_BYTES a * 8 - 2)))"

text \<open>A node that \<^verbatim>\<open>mmap\<close> has just returned is zero: an interior node has no children,
  and every record of a leaf reads as a small object of pageblock 0.\<close>

definition empty_interior :: "nat \<Rightarrow> 'a option" where
  "empty_interior = (\<lambda>_. None)"

definition zero_leaf :: radix_leaf where
  "zero_leaf = (\<lambda>_. Small 0)"

text \<open>One iteration of the loop of \<^verbatim>\<open>radix_register\<close>: the two interior slots are
  filled when they are null, then the record is stored in the leaf.\<close>

definition radix_register_page :: "arch \<Rightarrow> nat \<Rightarrow> page_record \<Rightarrow> state \<Rightarrow> error + state" where
  "radix_register_page a page rec st =
     (case radix_root st of
        None \<Rightarrow> Inl Segfault
      | Some root \<Rightarrow>
          (case (case root (radix_level1 a page) of
                   Some n2 \<Rightarrow> Inr (n2, st)
                 | None \<Rightarrow>
                     (case radix_interior_alloc a st of
                        Inl e \<Rightarrow> Inl e
                      | Inr (_, st1) \<Rightarrow> Inr (empty_interior, st1))) of
             Inl e \<Rightarrow> Inl e
           | Inr (n2, st1) \<Rightarrow>
               (case (case n2 (radix_level2 a page) of
                        Some leaf \<Rightarrow> Inr (leaf, st1)
                      | None \<Rightarrow>
                          (case radix_leaf_alloc a st1 of
                             Inl e \<Rightarrow> Inl e
                           | Inr (_, st2) \<Rightarrow> Inr (zero_leaf, st2))) of
                  Inl e \<Rightarrow> Inl e
                | Inr (leaf, st2) \<Rightarrow>
                    Inr (st2\<lparr>radix_root :=
                      Some (root(radix_level1 a page \<mapsto>
                        n2(radix_level2 a page \<mapsto>
                          leaf(radix_level3 a page := rec))))\<rparr>))))"

fun radix_register_pages :: "arch \<Rightarrow> nat \<Rightarrow> nat \<Rightarrow> page_record \<Rightarrow> state \<Rightarrow> error + state" where
  "radix_register_pages a 0 page rec st = Inr st"
| "radix_register_pages a (Suc n) page rec st =
     (case radix_register_page a page rec st of
        Inl e \<Rightarrow> Inl e
      | Inr st1 \<Rightarrow> radix_register_pages a n (page + 1) rec st1)"

definition radix_register ::
  "arch \<Rightarrow> nat \<Rightarrow> nat \<Rightarrow> nat \<Rightarrow> nat \<Rightarrow> object_type \<Rightarrow> state \<Rightarrow> error + state" where
  "radix_register a start num_pages ptr sz ty st =
     (case (if radix_root st = None
            then (case radix_interior_alloc a st of
                    Inl e \<Rightarrow> Inl e
                  | Inr (_, st1) \<Rightarrow> Inr (st1\<lparr>radix_root := Some empty_interior\<rparr>))
            else Inr st) of
        Inl e \<Rightarrow> Inl e
      | Inr st1 \<Rightarrow>
          (case (if ty = OBJECT_MEDIUM then quick_log2 (sz div PAGE_SIZE a) else Some 0) of
             None \<Rightarrow> Inl AssertFailed
           | Some log_size \<Rightarrow>
               radix_register_pages a num_pages (start div 2 ^ PAGE_BITS a)
                 (make_record a ty ptr sz log_size) st1))"

text \<open>
  \<^verbatim>\<open>radix_extract\<close> follows the three levels without a null check. \<^verbatim>\<open>*ptr\<close> and
  \<^verbatim>\<open>*size\<close> keep the values the caller gave them (\<open>ptr0\<close>, \<open>size0\<close>) when the record's
  kind does not set them.
\<close>

definition radix_lookup :: "arch \<Rightarrow> nat \<Rightarrow> state \<Rightarrow> page_record option" where
  "radix_lookup a page st =
     (case radix_root st of
        None \<Rightarrow> None
      | Some root \<Rightarrow>
          (case root (radix_level1 a page) of
             None \<Rightarrow> None
           | Some n2 \<Rightarrow>
               (case n2 (radix_level2 a page) of
                  None \<Rightarrow> None
                | Some leaf \<Rightarrow> Some (leaf (radix_level3 a page)))))"

definition radix_extract ::
  "arch \<Rightarrow> nat \<Rightarrow> nat \<Rightarrow> nat \<Rightarrow> state \<Rightarrow> error + (nat \<times> nat \<times> object_type)" where
  "radix_extract a object ptr0 size0 st =
     (case radix_lookup a (object div 2 ^ PAGE_BITS a) st of
        None \<Rightarrow> Inl Segfault
      | Some (Small pb) \<Rightarrow> Inr (pb * 2 ^ PAGE_BITS a, size0, OBJECT_SMALL)
      | Some (Medium log_size s) \<Rightarrow>
          Inr (s * 2 ^ SUPERPAGE_BITS, 2 ^ log_size * PAGE_SIZE a, OBJECT_MEDIUM)
      | Some (Large sz) \<Rightarrow> Inr (ptr0, sz, OBJECT_LARGE))"

definition register_pages ::
  "arch \<Rightarrow> nat \<Rightarrow> nat \<Rightarrow> nat \<Rightarrow> nat \<Rightarrow> object_type \<Rightarrow> state \<Rightarrow> error + state" where
  "register_pages a start num_pages ptr sz ty st = radix_register a start num_pages ptr sz ty st"

definition object_extract ::
  "arch \<Rightarrow> nat \<Rightarrow> nat \<Rightarrow> nat \<Rightarrow> state \<Rightarrow> error + (nat \<times> nat \<times> object_type)" where
  "object_extract a object ptr0 size0 st = radix_extract a object ptr0 size0 st"

section \<open>Buddy allocation inside a superpage\<close>

text \<open>The chunk is an address inside the superpage, so the difference of the two
  \<^verbatim>\<open>unsigned long\<close> values does not wrap.\<close>

definition find_index :: "arch \<Rightarrow> superpage \<Rightarrow> nat \<Rightarrow> nat \<Rightarrow> nat" where
  "find_index a super chunk order = (chunk - page_pool super) div (PAGE_SIZE a * 2 ^ order)"

definition find_buddy :: "arch \<Rightarrow> superpage \<Rightarrow> nat \<Rightarrow> nat \<Rightarrow> nat" where
  "find_buddy a super chunk order =
     (let i = find_index a super chunk order
      in if i mod 2 = 0 then chunk + 2 ^ order * PAGE_SIZE a
         else chunk - 2 ^ order * PAGE_SIZE a)"

definition find_bit_index :: "arch \<Rightarrow> superpage \<Rightarrow> nat \<Rightarrow> nat \<Rightarrow> nat" where
  "find_bit_index a super chunk order =
     (let i = find_index a super chunk order;
          i = (if i mod 2 \<noteq> 0 then i - 1 else i)
      in i div 2)"

text \<open>Access to \<^verbatim>\<open>super->buddy[order]\<close>. Each order has its own region of
  \<^verbatim>\<open>bitmaps\<close>; the model keeps one bit set per order.\<close>

definition set_free_list :: "nat \<Rightarrow> nat list \<Rightarrow> superpage \<Rightarrow> superpage" where
  "set_free_list order l super =
     super\<lparr>buddy := (buddy super)(order := (buddy super order)\<lparr>free_list := l\<rparr>)\<rparr>"

definition change_bit :: "nat \<Rightarrow> nat \<Rightarrow> superpage \<Rightarrow> superpage" where
  "change_bit nr order super =
     super\<lparr>buddy := (buddy super)(order := (buddy super order)
       \<lparr>bitmap := (bitmap (buddy super order))(nr := \<not> bitmap (buddy super order) nr)\<rparr>)\<rparr>"

text \<open>The first loop of \<^verbatim>\<open>buddy_alloc\<close>: the first order from \<open>curr_order\<close> up with a
  free chunk gives its head. Without one the loop ends with a null chunk at
  \<open>BUDDY_ORDER_MAX\<close>.\<close>

function buddy_alloc_scan :: "arch \<Rightarrow> superpage \<Rightarrow> nat \<Rightarrow> nat \<times> nat \<times> superpage" where
  "buddy_alloc_scan a super curr_order =
     (if curr_order < BUDDY_ORDER_MAX a then
        (case free_list (buddy super curr_order) of
           [] \<Rightarrow> buddy_alloc_scan a super (curr_order + 1)
         | chunk # _ \<Rightarrow>
             (chunk, curr_order,
              change_bit (find_bit_index a super chunk curr_order) curr_order
                (set_free_list curr_order
                   (double_list_remove chunk (free_list (buddy super curr_order))) super)))
      else (0, curr_order, super))"
  by pat_completeness auto
termination
  by (relation "measure (\<lambda>(a, super, curr_order). BUDDY_ORDER_MAX a - curr_order)") auto

declare buddy_alloc_scan.simps [simp del]

text \<open>The second loop: the chunk put on the free list of the lower order is
  \<^verbatim>\<open>chunk\<close> itself, and the loop goes on with \<^verbatim>\<open>buddy\<close>, the half above it.
  Inserting a null chunk writes through a null pointer.\<close>

function buddy_alloc_split ::
  "arch \<Rightarrow> nat \<Rightarrow> nat \<Rightarrow> nat \<Rightarrow> nat \<Rightarrow> superpage \<Rightarrow> error + (nat \<times> superpage)" where
  "buddy_alloc_split a order curr_order sz chunk super =
     (if curr_order > order then
        (let curr_order1 = curr_order - 1;
             sz1 = sz div 2;
             buddy_chunk = chunk + sz1 * PAGE_SIZE a
         in if chunk = 0 then Inl Segfault
            else buddy_alloc_split a order curr_order1 sz1 buddy_chunk
                   (change_bit (find_bit_index a super chunk curr_order1) curr_order1
                      (set_free_list curr_order1
                         (double_list_insert_front chunk (free_list (buddy super curr_order1)))
                         super)))
      else Inr (chunk, super))"
  by pat_completeness auto
termination
  by (relation "measure (\<lambda>(a, order, curr_order, sz, chunk, super). curr_order)") auto

declare buddy_alloc_split.simps [simp del]

text \<open>The last part: when the list of \<^verbatim>\<open>largest_free_order\<close> is empty, the orders
  below are searched from the top; \<open>BUDDY_ORDER_MAX + 1\<close> marks a superpage with no
  free chunk.\<close>

fun largest_free_below :: "superpage \<Rightarrow> nat \<Rightarrow> nat option" where
  "largest_free_below super 0 = None"
| "largest_free_below super (Suc sorder) =
     (if free_list (buddy super sorder) \<noteq> [] then Some sorder
      else largest_free_below super sorder)"

definition buddy_alloc_largest :: "arch \<Rightarrow> superpage \<Rightarrow> superpage" where
  "buddy_alloc_largest a super =
     (if free_list (buddy super (largest_free_order super)) = [] then
        (case largest_free_below super (largest_free_order super) of
           Some sorder \<Rightarrow> super\<lparr>largest_free_order := sorder\<rparr>
         | None \<Rightarrow> super\<lparr>largest_free_order := BUDDY_ORDER_MAX a + 1\<rparr>)
      else super)"

definition buddy_alloc :: "arch \<Rightarrow> superpage \<Rightarrow> nat \<Rightarrow> error + (nat \<times> superpage)" where
  "buddy_alloc a super sz =
     (case quick_log2 (sz div PAGE_SIZE a) of
        None \<Rightarrow> Inl AssertFailed
      | Some order \<Rightarrow>
          (case buddy_alloc_scan a super order of
             (chunk, curr_order, super1) \<Rightarrow>
               (case buddy_alloc_split a order curr_order (2 ^ curr_order) chunk super1 of
                  Inl e \<Rightarrow> Inl e
                | Inr (chunk1, super2) \<Rightarrow> Inr (chunk1, buddy_alloc_largest a super2))))"

text \<open>The loop of \<^verbatim>\<open>buddy_free\<close>: the bit of the pair is tested and flipped; when it was
  set the buddy is free, is taken off its list, and the merged chunk (the lower of the
  two addresses) goes to the next order. The result is the order and the chunk at which
  the loop stops.\<close>

function buddy_free_merge :: "arch \<Rightarrow> superpage \<Rightarrow> nat \<Rightarrow> nat \<Rightarrow> nat \<times> nat \<times> superpage" where
  "buddy_free_merge a super chunk curr_order =
     (if curr_order < BUDDY_ORDER_MAX a - 1 then
        (let nr = find_bit_index a super chunk curr_order;
             oldbit = bitmap (buddy super curr_order) nr;
             super1 = change_bit nr curr_order super
         in if \<not> oldbit then (curr_order, chunk, super1)
            else
              (let buddy_chunk = find_buddy a super1 chunk curr_order;
                   super2 = set_free_list curr_order
                     (double_list_remove buddy_chunk (free_list (buddy super1 curr_order))) super1;
                   chunk1 = (if find_index a super2 chunk curr_order mod 2 \<noteq> 0
                             then buddy_chunk else chunk)
               in buddy_free_merge a super2 chunk1 (curr_order + 1)))
      else (curr_order, chunk, super))"
  by pat_completeness auto
termination
  by (relation "measure (\<lambda>(a, super, chunk, curr_order). BUDDY_ORDER_MAX a - 1 - curr_order)") auto

declare buddy_free_merge.simps [simp del]

section \<open>Header pool and superpages\<close>

text \<open>\<^verbatim>\<open>quickie_alloc\<close> and \<^verbatim>\<open>quickie_free\<close> on \<^verbatim>\<open>sph_pageblocks\<close>, the only pool. The
  link of a freed header is its first word, which is the field \<^verbatim>\<open>page_pool\<close>.\<close>

definition quickie_alloc :: "arch \<Rightarrow> nat \<Rightarrow> state \<Rightarrow> error + (nat \<times> state)" where
  "quickie_alloc a osize st =
     (case (if q_unallocated (sph_pageblocks st) = 0 \<or> q_num_free_objects (sph_pageblocks st) = 0
            then (case page_alloc (PAGE_SIZE a) st of
                    Inl e \<Rightarrow> Inl e
                  | Inr (addr, st1) \<Rightarrow>
                      Inr (st1\<lparr>sph_pageblocks := (sph_pageblocks st1)
                        \<lparr>q_unallocated := addr,
                         q_num_free_objects := int (PAGE_SIZE a div osize)\<rparr>\<rparr>))
            else Inr st) of
        Inl e \<Rightarrow> Inl e
      | Inr st1 \<Rightarrow>
          (let q = sph_pageblocks st1;
               (object, q1) =
                 (if q_freed q \<noteq> 0
                  then (q_freed q, q\<lparr>q_freed := page_pool (superpages st1 (q_freed q))\<rparr>)
                  else (q_unallocated q, q\<lparr>q_unallocated := q_unallocated q + osize\<rparr>))
           in Inr (object,
                st1\<lparr>sph_pageblocks := q1\<lparr>q_num_free_objects := q_num_free_objects q1 - 1\<rparr>\<rparr>)))"

definition quickie_free :: "nat \<Rightarrow> state \<Rightarrow> state" where
  "quickie_free object st =
     st\<lparr>superpages := (superpages st)
          (object := (superpages st object)\<lparr>page_pool := q_freed (sph_pageblocks st)\<rparr>),
        sph_pageblocks := (sph_pageblocks st)\<lparr>q_freed := object\<rparr>\<rparr>"

text \<open>\<^verbatim>\<open>buddy_free\<close>. The variable \<^verbatim>\<open>length\<close> is doubled in the loop and never read, and
  is left out.\<close>

definition buddy_free :: "arch \<Rightarrow> nat \<Rightarrow> nat \<Rightarrow> nat \<Rightarrow> state \<Rightarrow> error + state" where
  "buddy_free a super start len st =
     (case quick_log2 (len div PAGE_SIZE a) of
        None \<Rightarrow> Inl AssertFailed
      | Some order \<Rightarrow>
          (case buddy_free_merge a (superpages st super) start order of
             (curr_order, chunk, sp) \<Rightarrow>
               if curr_order < BUDDY_ORDER_MAX a - 1 then
                 (let sp1 = set_free_list curr_order
                       (double_list_insert_front chunk (free_list (buddy sp curr_order))) sp;
                      sp2 = (if curr_order > largest_free_order sp1
                                \<or> largest_free_order sp1 > BUDDY_ORDER_MAX a
                             then sp1\<lparr>largest_free_order := curr_order\<rparr> else sp1)
                  in Inr (st\<lparr>superpages := (superpages st)(super := sp2)\<rparr>))
               else
                 (let st1 = st\<lparr>superpages := (superpages st)(super := sp)\<rparr>;
                      st2 = page_free chunk (SUPERPAGE_SIZE a) st1;
                      st3 = st2\<lparr>superpage_list := double_list_remove super (superpage_list st2)\<rparr>
                  in Inr (quickie_free super st3))))"

text \<open>\<^verbatim>\<open>get_free_superpage\<close>: the first superpage of the list whose largest free order
  fits the request, or a new one. A new header gets an empty bitmap and the whole
  superpage as one chunk of the highest order; its other free lists are not written.\<close>

definition superpage_fits :: "arch \<Rightarrow> nat \<Rightarrow> superpage \<Rightarrow> bool" where
  "superpage_fits a sz super =
     (largest_free_order super < BUDDY_ORDER_MAX a
      \<and> 2 ^ largest_free_order super \<ge> sz div PAGE_SIZE a)"

definition clear_bitmaps :: "superpage \<Rightarrow> superpage" where
  "clear_bitmaps super =
     super\<lparr>buddy := (\<lambda>order. (buddy super order)\<lparr>bitmap := (\<lambda>_. False)\<rparr>)\<rparr>"

definition get_free_superpage :: "arch \<Rightarrow> nat \<Rightarrow> state \<Rightarrow> error + (nat \<times> state)" where
  "get_free_superpage a sz st =
     (case find (\<lambda>s. superpage_fits a sz (superpages st s)) (superpage_list st) of
        Some super \<Rightarrow> Inr (super, st)
      | None \<Rightarrow>
          (case quickie_alloc a (SUPERPAGE_HEADER_SIZE a) st of
             Inl e \<Rightarrow> Inl e
           | Inr (super, st1) \<Rightarrow>
               (case page_alloc (SUPERPAGE_SIZE a) st1 of
                  Inl e \<Rightarrow> Inl e
                | Inr (pool, st2) \<Rightarrow>
                    (let sp0 = clear_bitmaps ((superpages st2 super)\<lparr>page_pool := pool\<rparr>);
                         sp1 = set_free_list (BUDDY_ORDER_MAX a - 1)
                           (double_list_insert_front pool
                              (free_list (buddy sp0 (BUDDY_ORDER_MAX a - 1)))) sp0;
                         sp2 = sp1\<lparr>largest_free_order := BUDDY_ORDER_MAX a - 1\<rparr>
                     in Inr (super,
                          st2\<lparr>superpages := (superpages st2)(super := sp2),
                              superpage_list :=
                                double_list_insert_front super (superpage_list st2)\<rparr>)))))"

text \<open>\<^verbatim>\<open>supermap\<close> writes the header address into the first word of the chunk, where the
  field \<^verbatim>\<open>sph\<close> of a pageblock is; \<^verbatim>\<open>superunmap\<close> reads it back.\<close>

definition supermap :: "arch \<Rightarrow> nat \<Rightarrow> state \<Rightarrow> error + (nat \<times> state)" where
  "supermap a sz st =
     (case get_free_superpage a sz st of
        Inl e \<Rightarrow> Inl e
      | Inr (super, st1) \<Rightarrow>
          (case buddy_alloc a (superpages st1 super) sz of
             Inl e \<Rightarrow> Inl e
           | Inr (pages, sp) \<Rightarrow>
               if pages = 0 then Inl Segfault
               else Inr (pages,
                 st1\<lparr>superpages := (superpages st1)(super := sp),
                     pageblocks := (pageblocks st1)
                       (pages := (pageblocks st1 pages)\<lparr>sph := super\<rparr>)\<rparr>)))"

definition superunmap :: "arch \<Rightarrow> nat \<Rightarrow> nat \<Rightarrow> state \<Rightarrow> error + state" where
  "superunmap a start len st = buddy_free a (sph (pageblocks st start)) start len st"

section \<open>Pageblocks\<close>

text \<open>The number of objects of a pageblock, \<^verbatim>\<open>mem_pool_size / object_size\<close>, and the
  address of the object with a one-based index.\<close>

definition slot_count :: "pageblock \<Rightarrow> nat" where
  "slot_count pb = mem_pool_size pb div object_size pb"

definition slot_addr :: "pageblock \<Rightarrow> nat \<Rightarrow> nat" where
  "slot_addr pb i = mem_pool pb + (i - 1) * object_size pb"

definition slot_index :: "pageblock \<Rightarrow> nat \<Rightarrow> nat" where
  "slot_index pb object = ((object - mem_pool pb) div object_size pb + 1) mod 2 ^ 16"

text \<open>\<^verbatim>\<open>garbage_collect\<close>: the head of the garbage stack is swapped for zero in one
  32-bit compare-and-swap; the chain becomes the freed list and its count is added to
  the free objects.\<close>

definition garbage_collect :: "pageblock \<Rightarrow> pageblock" where
  "garbage_collect collectee =
     (let header = garbage_head collectee
      in collectee\<lparr>garbage_head := \<lparr>qn_next = 0, qn_count = 0\<rparr>,
                   freed := qn_next header,
                   num_free_objects := num_free_objects collectee + int (qn_count header)\<rparr>)"

text \<open>
  The block of \<^verbatim>\<open>malloc\<close> that reserves an object from the chosen pageblock: the head
  of the freed list when there is one, else the first object never used. With
  \<^verbatim>\<open>unallocated\<close> at 0 the source computes the address one object below the pool.
\<close>

definition malloc_reserve :: "pageblock \<Rightarrow> (nat \<Rightarrow> nat) \<Rightarrow> nat \<times> pageblock" where
  "malloc_reserve pb mem =
     (let (pointer, pb1) =
            (if freed pb \<noteq> 0
             then (let pointer = mem_pool pb + (freed pb - 1) * object_size pb
                   in (pointer, pb\<lparr>freed := mem pointer\<rparr>))
             else (let pointer = (if unallocated pb = 0 then mem_pool pb - object_size pb
                                  else mem_pool pb + (unallocated pb - 1) * object_size pb);
                       u = (unallocated pb + 1) mod 2 ^ 16
                   in (pointer,
                       pb\<lparr>unallocated := (if u > mem_pool_size pb div object_size pb
                                          then 0 else u)\<rparr>)))
      in (pointer, pb1\<lparr>num_free_objects := num_free_objects pb1 - 1\<rparr>))"

text \<open>The first three statements of \<^verbatim>\<open>local_free\<close>: the object becomes the head of the
  freed list.\<close>

definition local_free_push :: "nat \<Rightarrow> pageblock \<Rightarrow> (nat \<Rightarrow> nat) \<Rightarrow> pageblock \<times> (nat \<Rightarrow> nat)" where
  "local_free_push object pb mem =
     (pb\<lparr>freed := slot_index pb object, num_free_objects := num_free_objects pb + 1\<rparr>,
      mem(object := freed pb))"

text \<open>The loop of \<^verbatim>\<open>remote_free\<close> for a pageblock that has an owner: the object is
  linked before the head of the garbage stack and the count goes up by one, in one
  64-bit compare-and-swap that leaves \<^verbatim>\<open>owning_thread\<close> as it is.\<close>

definition remote_free_push :: "nat \<Rightarrow> pageblock \<Rightarrow> (nat \<Rightarrow> nat) \<Rightarrow> pageblock \<times> (nat \<Rightarrow> nat)" where
  "remote_free_push object pb mem =
     (pb\<lparr>garbage_head := \<lparr>qn_next = slot_index pb object,
                          qn_count = (qn_count (garbage_head pb) + 1) mod 2 ^ 16\<rparr>\<rparr>,
      mem(object := qn_next (garbage_head pb)))"

text \<open>
  \<^verbatim>\<open>compute_pageblock_size\<close>. The source rounds in floating point:
  \<^verbatim>\<open>ceil(x / PAGE_SIZE) * PAGE_SIZE\<close>, then \<^verbatim>\<open>ceil(log2(suggestion) + 0.5)\<close>. The model
  computes the same integers: \<open>ceil_log2 n\<close> is the least \<open>p\<close> with \<open>n \<le> 2 ^ p\<close>, and
  the least \<open>p\<close> with \<open>log2 s + 1/2 \<le> p\<close> is the least \<open>p\<close> with \<open>2 * s * s \<le> 4 ^ p\<close>.
\<close>

fun ceil_log2 :: "nat \<Rightarrow> nat" where
  "ceil_log2 n = (if n \<le> 1 then 0 else Suc (ceil_log2 ((n + 1) div 2)))"

declare ceil_log2.simps [simp del]

definition ceil_pages :: "arch \<Rightarrow> nat \<Rightarrow> nat" where
  "ceil_pages a n = ((n + PAGE_SIZE a - 1) div PAGE_SIZE a) * PAGE_SIZE a"

definition compute_pageblock_size :: "arch \<Rightarrow> nat \<Rightarrow> nat option" where
  "compute_pageblock_size a index =
     (case reverse_size_class index of
        None \<Rightarrow> None
      | Some r \<Rightarrow>
          (let suggestion = ceil_pages a (r * OBJECTS_PER_PAGEBLOCK);
               pow = (ceil_log2 (2 * suggestion * suggestion) + 1) div 2;
               suggestion = 2 ^ pow
           in if suggestion < MIN_PAGEBLOCK_SIZE a then Some (MIN_PAGEBLOCK_SIZE a)
              else if suggestion > MAX_PAGEBLOCK_SIZE a then Some (MAX_PAGEBLOCK_SIZE a)
              else Some suggestion))"

text \<open>The index of a pageblock size in the arrays of inactive and free pageblocks:
  \<^verbatim>\<open>quick_log2(pages) - quick_log2(MIN_PAGEBLOCK_SIZE / PAGE_SIZE)\<close>. A negative
  difference would index before the array.\<close>

definition pageblock_size_index :: "arch \<Rightarrow> nat \<Rightarrow> error + nat" where
  "pageblock_size_index a bytes =
     (case quick_log2 (bytes div PAGE_SIZE a) of
        None \<Rightarrow> Inl AssertFailed
      | Some l \<Rightarrow>
          (case quick_log2 (MIN_PAGEBLOCK_SIZE a div PAGE_SIZE a) of
             None \<Rightarrow> Inl AssertFailed
           | Some m \<Rightarrow> if l < m then Inl OutOfBounds else Inr (l - m)))"

text \<open>The size of the header in front of the objects,
  \<^verbatim>\<open>ceil(sizeof(pageblock_t) / CACHE_LINE_SIZE) * CACHE_LINE_SIZE\<close>: a pageblock header
  takes 44 bytes with 4-byte pointers and 72 bytes with 8-byte pointers, so one cache
  line.\<close>

definition pageblock_header_size :: nat where
  "pageblock_header_size = CACHE_LINE_SIZE"

text \<open>\<^verbatim>\<open>MAX_GLOBAL_INACTIVE\<close> is 0, so the count is never below it and the pageblock goes
  back to its superpage.\<close>

definition insert_global_free_pageblocks :: "arch \<Rightarrow> nat \<Rightarrow> state \<Rightarrow> error + state" where
  "insert_global_free_pageblocks a pageblock st =
     (let pb = pageblocks st pageblock
      in case pageblock_size_index a (mem_pool_size pb + mem_pool pb - pageblock) of
           Inl e \<Rightarrow> Inl e
         | Inr size_index \<Rightarrow>
             if snd (global_free_pageblocks st size_index) \<ge> MAX_GLOBAL_INACTIVE
             then superunmap a pageblock (mem_pool_size pb + CACHE_LINE_SIZE) st
             else Inr (st\<lparr>global_free_pageblocks := (global_free_pageblocks st)
                    (size_index :=
                       (lf_lifo_enqueue (fst (global_free_pageblocks st size_index)) pageblock,
                        snd (global_free_pageblocks st size_index) + 1))\<rparr>))"

definition insert_global_partial_pageblocks :: "nat \<Rightarrow> nat \<Rightarrow> state \<Rightarrow> state" where
  "insert_global_partial_pageblocks pageblock class_index st =
     st\<lparr>global_partial_pageblocks := (global_partial_pageblocks st)
          (class_index :=
             (lf_lifo_enqueue (fst (global_partial_pageblocks st class_index)) pageblock,
              snd (global_partial_pageblocks st class_index) + 1))\<rparr>"

text \<open>The counts are \<^verbatim>\<open>unsigned int\<close>; adding \<open>-1\<close> wraps at \<open>2 ^ 32\<close>.\<close>

definition remove_global_pageblocks :: "arch \<Rightarrow> nat \<Rightarrow> nat \<Rightarrow> state \<Rightarrow> error + (nat \<times> state)" where
  "remove_global_pageblocks a class_index pageblock_size st =
     (case lf_lifo_dequeue (fst (global_partial_pageblocks st class_index)) of
        (pageblock, rest) \<Rightarrow>
          if pageblock \<noteq> 0 then
            Inr (pageblock,
              st\<lparr>global_partial_pageblocks := (global_partial_pageblocks st)
                (class_index :=
                   (rest, (snd (global_partial_pageblocks st class_index) + 2 ^ 32 - 1)
                            mod 2 ^ 32))\<rparr>)
          else
            (case pageblock_size_index a pageblock_size of
               Inl e \<Rightarrow> Inl e
             | Inr size_index \<Rightarrow>
                 (case lf_lifo_dequeue (fst (global_free_pageblocks st size_index)) of
                    (pageblock, rest) \<Rightarrow>
                      if pageblock \<noteq> 0 then
                        Inr (pageblock,
                          st\<lparr>global_free_pageblocks := (global_free_pageblocks st)
                            (size_index :=
                               (rest, (snd (global_free_pageblocks st size_index) + 2 ^ 32 - 1)
                                        mod 2 ^ 32))\<rparr>)
                      else Inr (0, st))))"

text \<open>\<^verbatim>\<open>get_free_pageblock\<close> for the thread \<open>t\<close> and the class \<open>index\<close>: a pageblock
  from the thread's inactive queue, else from the global lists, else a new one from a
  superpage; it is reset when its object size is another, then owned by the thread and
  put at the front of the active list. For a new pageblock the source computes
  \<^verbatim>\<open>pageblock_size - mem_pool + pageblock\<close> in \<^verbatim>\<open>unsigned long\<close>, with \<^verbatim>\<open>mem_pool\<close>
  just set to the pageblock plus the header size: modulo the word size that is the
  pageblock size minus the header size, at every address.\<close>

definition get_free_pageblock :: "arch \<Rightarrow> nat \<Rightarrow> nat \<Rightarrow> state \<Rightarrow> error + (nat \<times> state)" where
  "get_free_pageblock a t index st =
     (case compute_pageblock_size a index of
        None \<Rightarrow> Inl OutOfBounds
      | Some pageblock_size \<Rightarrow>
     (case reverse_size_class index of
        None \<Rightarrow> Inl OutOfBounds
      | Some osize \<Rightarrow>
     (case pageblock_size_index a pageblock_size of
        Inl e \<Rightarrow> Inl e
      | Inr size_index \<Rightarrow>
     (case (case seq_lifo_dequeue (fst (local_inactive_pageblocks st t size_index)) of
              (pageblock, rest) \<Rightarrow>
                if pageblock = 0 then
                  (case remove_global_pageblocks a index pageblock_size st of
                     Inl e \<Rightarrow> Inl e
                   | Inr (pageblock, st1) \<Rightarrow>
                       if pageblock \<noteq> 0 \<and> num_free_objects (pageblocks st1 pageblock) = 0
                       then Inr (pageblock,
                              st1\<lparr>pageblocks := (pageblocks st1)
                                (pageblock := garbage_collect (pageblocks st1 pageblock))\<rparr>)
                       else Inr (pageblock, st1))
                else
                  Inr (pageblock,
                    st\<lparr>local_inactive_pageblocks := (local_inactive_pageblocks st)
                      (t := (local_inactive_pageblocks st t)
                         (size_index :=
                            (rest, snd (local_inactive_pageblocks st t size_index) - 1)))\<rparr>)) of
        Inl e \<Rightarrow> Inl e
      | Inr (pageblock, st1) \<Rightarrow>
     (case (if pageblock = 0 then
              (case supermap a pageblock_size st1 of
                 Inl e \<Rightarrow> Inl e
               | Inr (pageblock, st2) \<Rightarrow>
                   (case register_pages a pageblock (pageblock_size div PAGE_SIZE a)
                           pageblock 0 OBJECT_SMALL st2 of
                      Inl e \<Rightarrow> Inl e
                    | Inr st3 \<Rightarrow>
                        (let pool = pageblock + pageblock_header_size;
                             pool_size = pageblock_size - pageblock_header_size
                         in Inr (pageblock,
                              st3\<lparr>pageblocks := (pageblocks st3)
                                (pageblock := (pageblocks st3 pageblock)
                                   \<lparr>garbage_head := \<lparr>qn_next = 0, qn_count = 0\<rparr>,
                                    freed := 0,
                                    unallocated := 1,
                                    object_size := osize,
                                    mem_pool := pool,
                                    mem_pool_size := pool_size,
                                    num_free_objects := int (pool_size div osize)\<rparr>)\<rparr>))))
            else if object_size (pageblocks st1 pageblock) \<noteq> osize then
              Inr (pageblock,
                st1\<lparr>pageblocks := (pageblocks st1)
                  (pageblock := (pageblocks st1 pageblock)
                     \<lparr>freed := 0,
                      unallocated := 1,
                      object_size := osize,
                      num_free_objects :=
                        int (mem_pool_size (pageblocks st1 pageblock) div osize)\<rparr>)\<rparr>)
            else Inr (pageblock, st1)) of
        Inl e \<Rightarrow> Inl e
      | Inr (pageblock, st2) \<Rightarrow>
          Inr (pageblock,
            st2\<lparr>pageblocks := (pageblocks st2)
                  (pageblock := (pageblocks st2 pageblock)
                     \<lparr>owning_heap := t, owning_thread := t\<rparr>),
                local_heap := (local_heap st2)
                  (t := (local_heap st2 t)
                     (index := double_list_insert_front pageblock (local_heap st2 t index)))\<rparr>))))))"

section \<open>Allocation\<close>

text \<open>\<^verbatim>\<open>medium_or_large_alloc\<close>: up to a superpage the size is rounded up to pages and then
  to a power of two (\<^verbatim>\<open>ceil(log2(size))\<close>, see \<open>ceil_log2\<close>) and taken from a
  superpage; above, it comes from the page provider. Only the first page is
  registered.\<close>

definition medium_or_large_alloc :: "arch \<Rightarrow> nat \<Rightarrow> state \<Rightarrow> error + (nat \<times> state)" where
  "medium_or_large_alloc a sz st =
     (if sz \<le> SUPERPAGE_SIZE a then
        (let sz1 = ceil_pages a sz;
             pow = ceil_log2 sz1;
             sz2 = 2 ^ pow
         in case supermap a sz2 st of
              Inl e \<Rightarrow> Inl e
            | Inr (mem, st1) \<Rightarrow>
                (case register_pages a mem 1 (sph (pageblocks st1 mem)) sz2 OBJECT_MEDIUM st1 of
                   Inl e \<Rightarrow> Inl e
                 | Inr st2 \<Rightarrow> Inr (mem, st2)))
      else
        (case page_alloc sz st of
           Inl e \<Rightarrow> Inl e
         | Inr (mem, st1) \<Rightarrow>
             (case register_pages a mem 1 0 sz OBJECT_LARGE st1 of
                Inl e \<Rightarrow> Inl e
              | Inr st2 \<Rightarrow> Inr (mem, st2))))"

definition set_pageblock :: "nat \<Rightarrow> pageblock \<Rightarrow> state \<Rightarrow> state" where
  "set_pageblock pageblock pb st = st\<lparr>pageblocks := (pageblocks st)(pageblock := pb)\<rparr>"

definition set_active :: "nat \<Rightarrow> nat \<Rightarrow> nat list \<Rightarrow> state \<Rightarrow> state" where
  "set_active t index l st =
     st\<lparr>local_heap := (local_heap st)(t := (local_heap st t)(index := l))\<rparr>"

text \<open>\<^verbatim>\<open>malloc\<close> called by the thread \<open>t\<close>. The variable \<^verbatim>\<open>pageblock\<close> keeps the head
  of the active list as it was read, also after the list is rotated.\<close>

definition malloc :: "arch \<Rightarrow> nat \<Rightarrow> nat \<Rightarrow> state \<Rightarrow> error + (nat \<times> state)" where
  "malloc a t requested_size st =
     (if requested_size = 0 then Inr (0, st)
      else if requested_size > MAX_OBJECT_SIZE then medium_or_large_alloc a requested_size st
      else
        (case malloc_compute_size_class a requested_size of
           None \<Rightarrow> Inl OutOfBounds
         | Some index \<Rightarrow>
             (let pageblock = list_head (local_heap st t index);
                  st1 = (if pageblock \<noteq> 0 \<and> num_free_objects (pageblocks st pageblock) = 0
                         then (let st' = set_pageblock pageblock
                                      (garbage_collect (pageblocks st pageblock)) st
                               in if num_free_objects (pageblocks st' pageblock) = 0
                                  then set_active t index
                                         (double_list_rotate_back (local_heap st' t index)) st'
                                  else st')
                         else st)
              in case (if pageblock = 0 \<or> num_free_objects (pageblocks st1 pageblock) = 0
                       then get_free_pageblock a t index st1
                       else Inr (pageblock, st1)) of
                   Inl e \<Rightarrow> Inl e
                 | Inr (pageblock, st2) \<Rightarrow>
                     (case malloc_reserve (pageblocks st2 pageblock) (slot_next st2) of
                        (pointer, pb) \<Rightarrow>
                          (let st3 = set_pageblock pageblock pb st2;
                               st4 = (if num_free_objects pb = 0
                                      then set_active t index
                                             (double_list_rotate_back (local_heap st3 t index)) st3
                                      else st3)
                           in Inr (pointer, st4))))))"

section \<open>Deallocation\<close>

text \<open>\<^verbatim>\<open>local_free\<close> by the thread \<open>t\<close>, with \<open>index\<close> the class of
  \<^verbatim>\<open>my_heap\<close>.\<close>

definition local_free :: "arch \<Rightarrow> nat \<Rightarrow> nat \<Rightarrow> nat \<Rightarrow> nat \<Rightarrow> state \<Rightarrow> error + state" where
  "local_free a t object pageblock index st =
     (case local_free_push object (pageblocks st pageblock) (slot_next st) of
        (pb, mem) \<Rightarrow>
          (let st1 = (set_pageblock pageblock pb st)\<lparr>slot_next := mem\<rparr>
           in if num_free_objects pb = int (mem_pool_size pb div object_size pb) then
                (case pageblock_size_index a (mem_pool_size pb + mem_pool pb - pageblock) of
                   Inl e \<Rightarrow> Inl e
                 | Inr size_index \<Rightarrow>
                     (let st2 = set_active t index
                            (double_list_remove pageblock (local_heap st1 t index)) st1
                      in if snd (local_inactive_pageblocks st2 t size_index) < MAX_PRIVATE_INACTIVE
                         then Inr (st2\<lparr>local_inactive_pageblocks := (local_inactive_pageblocks st2)
                                (t := (local_inactive_pageblocks st2 t)
                                   (size_index :=
                                      (seq_lifo_enqueue
                                         (fst (local_inactive_pageblocks st2 t size_index)) pageblock,
                                       snd (local_inactive_pageblocks st2 t size_index) + 1)))\<rparr>)
                         else insert_global_free_pageblocks a pageblock st2))
              else if pageblock \<noteq> list_head (local_heap st1 t index) \<and> num_free_objects pb > 1
              then Inr (set_active t index
                     (double_list_insert_front pageblock
                        (double_list_remove pageblock (local_heap st1 t index))) st1)
              else Inr st1))"

text \<open>The loop of \<^verbatim>\<open>remote_free\<close> on a pageblock with an owner, on the state.\<close>

definition remote_free_owned :: "nat \<Rightarrow> nat \<Rightarrow> state \<Rightarrow> state" where
  "remote_free_owned object pageblock st =
     (case remote_free_push object (pageblocks st pageblock) (slot_next st) of
        (pb, mem) \<Rightarrow> (set_pageblock pageblock pb st)\<lparr>slot_next := mem\<rparr>)"

text \<open>\<^verbatim>\<open>adopt_pageblock\<close>: the compare-and-swap succeeds when the owner is still
  \<^verbatim>\<open>ORPHAN\<close>. When it fails, \<^verbatim>\<open>remote_free\<close> is called on a pageblock that has an
  owner, which is its loop.\<close>

definition adopt_pageblock :: "arch \<Rightarrow> nat \<Rightarrow> nat \<Rightarrow> nat \<Rightarrow> nat \<Rightarrow> state \<Rightarrow> error + state" where
  "adopt_pageblock a t object pageblock index st =
     (if owning_thread (pageblocks st pageblock) = ORPHAN then
        (let st1 = set_pageblock pageblock ((pageblocks st pageblock)\<lparr>owning_thread := t\<rparr>) st;
             st2 = set_active t index
                     (double_list_insert_front pageblock (local_heap st1 t index)) st1
         in local_free a t object pageblock index st2)
      else Inr (remote_free_owned object pageblock st))"

definition remote_free :: "arch \<Rightarrow> nat \<Rightarrow> nat \<Rightarrow> nat \<Rightarrow> nat \<Rightarrow> state \<Rightarrow> error + state" where
  "remote_free a t object pageblock index st =
     (if owning_thread (pageblocks st pageblock) = ORPHAN
      then adopt_pageblock a t object pageblock index st
      else Inr (remote_free_owned object pageblock st))"

text \<open>\<^verbatim>\<open>free\<close> called by the thread \<open>t\<close>. A page that was never registered in an
  existing leaf has the zero record, which reads as a small object of the null
  pageblock: the source then reads \<^verbatim>\<open>pageblock->object_size\<close> through the null
  pointer.\<close>

definition free :: "arch \<Rightarrow> nat \<Rightarrow> nat \<Rightarrow> state \<Rightarrow> error + state" where
  "free a t object st =
     (if object = 0 then Inr st
      else
        (case object_extract a object 0 0 st of
           Inl e \<Rightarrow> Inl e
         | Inr (ptr, sz, ty) \<Rightarrow>
             if ty = OBJECT_LARGE then Inr (page_free object sz st)
             else if ty = OBJECT_MEDIUM then
               superunmap a object sz
                 (set_pageblock object ((pageblocks st object)\<lparr>sph := ptr\<rparr>) st)
             else if ptr = 0 then Inl Segfault
             else
               (case free_compute_size_class a (object_size (pageblocks st ptr)) of
                  None \<Rightarrow> Inl OutOfBounds
                | Some index \<Rightarrow>
                    if owning_thread (pageblocks st ptr) = t
                    then local_free a t object ptr index st
                    else if owning_thread (pageblocks st ptr) = ORPHAN
                    then adopt_pageblock a t object ptr index st
                    else remote_free a t object ptr index st)))"

section \<open>calloc and realloc\<close>

text \<open>\<^verbatim>\<open>size_t\<close> has \<open>8 * PTR_BYTES\<close> bits; the product of two \<^verbatim>\<open>size_t\<close> values is
  reduced modulo \<open>2 ^ (8 * PTR_BYTES)\<close>.\<close>

definition SIZE_MAX1 :: "arch \<Rightarrow> nat" where
  "SIZE_MAX1 a = 2 ^ (8 * PTR_BYTES a)"



definition memcpy :: "nat \<Rightarrow> nat \<Rightarrow> nat \<Rightarrow> state \<Rightarrow> state" where
  "memcpy dst src len st = st\<lparr>events := events st @ [Memcpy dst src len]\<rparr>"


text \<open>\<^verbatim>\<open>MAP_FAILED\<close> is \<^verbatim>\<open>(void *) -1\<close>.\<close>

definition MAP_FAILED :: "arch \<Rightarrow> nat" where
  "MAP_FAILED a = SIZE_MAX1 a - 1"

text \<open>\<^verbatim>\<open>mremap\<close> asks the page provider too: it fails when the provider has no result
  left; it returns the provider's address when the mapping may move and the old
  address when it may not.\<close>

definition mremap :: "nat \<Rightarrow> nat \<Rightarrow> nat \<Rightarrow> bool \<Rightarrow> state \<Rightarrow> (nat \<times> state) option" where
  "mremap old_address old_size new_size maymove st =
     (case mmap_results st of
        [] \<Rightarrow> None
      | r # rest \<Rightarrow>
          (let new_address = (if maymove then r else old_address)
           in Some (new_address,
                st\<lparr>mmap_results := rest,
                   events := events st @ [Mremap old_address old_size new_size new_address]\<rparr>)))"

definition realloc_large ::
  "arch \<Rightarrow> nat \<Rightarrow> nat \<Rightarrow> nat \<Rightarrow> nat \<Rightarrow> state \<Rightarrow> error + (nat \<times> state)" where
  "realloc_large a t object sz old_size st =
     (if sz \<le> SUPERPAGE_SIZE a then
        (case malloc a t sz st of
           Inl e \<Rightarrow> Inl e
         | Inr (new_object, st1) \<Rightarrow>
             if new_object = 0 then Inr (MAP_FAILED a, st1)
             else Inr (new_object, page_free object old_size (memcpy new_object object sz st1)))
      else
        (case (if sz < old_size then
                 (if sz > old_size div 2 then Inr (None, st)
                  else (case mremap object old_size sz False st of
                          None \<Rightarrow> Inl Exit
                        | Some (new_object, st1) \<Rightarrow> Inr (Some new_object, st1)))
               else (case mremap object old_size sz True st of
                       None \<Rightarrow> Inl Exit
                     | Some (new_object, st1) \<Rightarrow> Inr (Some new_object, st1))) of
           Inl e \<Rightarrow> Inl e
         | Inr (None, st1) \<Rightarrow> Inr (object, st1)
         | Inr (Some new_object, st1) \<Rightarrow>
             (case register_pages a new_object 1 0 sz OBJECT_LARGE st1 of
                Inl e \<Rightarrow> Inl e
              | Inr st2 \<Rightarrow> Inr (new_object, st2))))"

definition realloc_medium ::
  "arch \<Rightarrow> nat \<Rightarrow> nat \<Rightarrow> nat \<Rightarrow> nat \<Rightarrow> nat \<Rightarrow> state \<Rightarrow> error + (nat \<times> state)" where
  "realloc_medium a t object ptr sz old_size st =
     (case (if sz > SUPERPAGE_SIZE a then
              (case page_alloc sz st of
                 Inl e \<Rightarrow> Inl e
               | Inr (new_object, st1) \<Rightarrow>
                   (case register_pages a new_object 1 0 sz OBJECT_LARGE st1 of
                      Inl e \<Rightarrow> Inl e
                    | Inr st2 \<Rightarrow> Inr (Some new_object, st2)))
            else if sz > MAX_OBJECT_SIZE \<and> sz \<le> SUPERPAGE_SIZE a then
              (let super_size = 2 ^ ceil_log2 (ceil_pages a sz)
               in if super_size = old_size then Inr (None, st)
                  else (case supermap a super_size st of
                          Inl e \<Rightarrow> Inl e
                        | Inr (new_object, st1) \<Rightarrow>
                            (case register_pages a new_object 1 (sph (pageblocks st1 new_object))
                                    super_size OBJECT_MEDIUM st1 of
                               Inl e \<Rightarrow> Inl e
                             | Inr st2 \<Rightarrow> Inr (Some new_object, st2))))
            else
              (case malloc a t sz st of
                 Inl e \<Rightarrow> Inl e
               | Inr (new_object, st1) \<Rightarrow>
                   if new_object = 0 then Inr (Some 0, st1) else Inr (Some new_object, st1))) of
        Inl e \<Rightarrow> Inl e
      | Inr (None, st1) \<Rightarrow> Inr (object, st1)
      | Inr (Some new_object, st1) \<Rightarrow>
          if new_object = 0 then Inr (MAP_FAILED a, st1)
          else
            (let st2 = memcpy new_object object old_size st1;
                 st3 = set_pageblock object ((pageblocks st2 object)\<lparr>sph := ptr\<rparr>) st2
             in case superunmap a object old_size st3 of
                  Inl e \<Rightarrow> Inl e
                | Inr st4 \<Rightarrow> Inr (new_object, st4)))"

definition realloc_small ::
  "arch \<Rightarrow> nat \<Rightarrow> nat \<Rightarrow> nat \<Rightarrow> nat \<Rightarrow> state \<Rightarrow> error + (nat \<times> state)" where
  "realloc_small a t object ptr sz st =
     (if ptr = 0 then Inl Segfault
      else
     (let old_size = object_size (pageblocks st ptr)
      in if sz < MAX_OBJECT_SIZE \<and> compute_size_class a old_size = compute_size_class a sz
         then Inr (object, st)
         else if sz < old_size \<and> sz > old_size div 2 then Inr (object, st)
         else
           (case malloc a t sz st of
              Inl e \<Rightarrow> Inl e
            | Inr (new_object, st1) \<Rightarrow>
                if new_object = 0 then Inr (MAP_FAILED a, st1)
                else
                  (case free a t object (memcpy new_object object old_size st1) of
                     Inl e \<Rightarrow> Inl e
                   | Inr st2 \<Rightarrow> Inr (new_object, st2)))))"

definition realloc :: "arch \<Rightarrow> nat \<Rightarrow> nat \<Rightarrow> nat \<Rightarrow> state \<Rightarrow> error + (nat \<times> state)" where
  "realloc a t object sz st =
     (if object = 0 then malloc a t sz st
      else if sz = 0 then
        (case free a t object st of Inl e \<Rightarrow> Inl e | Inr st1 \<Rightarrow> Inr (0, st1))
      else
        (case object_extract a object 0 0 st of
           Inl e \<Rightarrow> Inl e
         | Inr (ptr, old_size, ty) \<Rightarrow>
             if sz = old_size then Inr (object, st)
             else if ty = OBJECT_LARGE then realloc_large a t object sz old_size st
             else if ty = OBJECT_MEDIUM then realloc_medium a t object ptr sz old_size st
             else realloc_small a t object ptr sz st))"

section \<open>Example states\<close>

text \<open>
  A thread (number 0) with two pageblocks of the largest class, 94 (objects of 16576
  bytes, 15 to a pageblock of 64 pages): the pageblock at \<open>524288\<close>, with one object in
  use, at the head of the active list, and the pageblock at \<open>262144\<close> behind it, with
  \<open>n\<close> free objects linked from \<open>f\<close>.
\<close>

definition example_pageblock :: "nat \<Rightarrow> nat \<Rightarrow> nat \<Rightarrow> int \<Rightarrow> pageblock" where
  "example_pageblock at f u n =
     \<lparr>sph = 1024, freed = f, unallocated = u, owning_heap = 0, object_size = 16576,
      num_free_objects = n, mem_pool_size = 262016, owning_thread = 0,
      garbage_head = \<lparr>qn_next = 0, qn_count = 0\<rparr>, mem_pool = at + 128\<rparr>"

definition two_pageblocks :: "nat \<Rightarrow> int \<Rightarrow> state" where
  "two_pageblocks f n =
     (fresh [])
       \<lparr>pageblocks := (\<lambda>_. zero_pageblock)
          (524288 := example_pageblock 524288 0 2 14,
           262144 := example_pageblock 262144 f 0 n),
        local_heap := (\<lambda>_ _. [])(0 := (\<lambda>_. [])(94 := [524288, 262144]))\<rparr>"

text \<open>
  A superpage as \<^verbatim>\<open>get_free_superpage\<close> makes it: one free chunk of the highest order
  and empty bitmaps.
\<close>

definition whole_superpage :: "arch \<Rightarrow> nat \<Rightarrow> superpage" where
  "whole_superpage a pool =
     \<lparr>page_pool = pool,
      buddy = (\<lambda>_. empty_buddy_order)
        (BUDDY_ORDER_MAX a - 1 := \<lparr>free_list = [pool], bitmap = (\<lambda>_. False)\<rparr>),
      largest_free_order = BUDDY_ORDER_MAX a - 1\<rparr>"





text \<open>
  On x86-64: the thread 0 with one pageblock of class 94 at \<open>524288\<close>, registered in
  the radix tree under its 64 pages (pages 128 to 191, in the first leaf). The objects 2
  and 3 are in use, the object 1 was freed and is the only one on the freed list, the
  other 12 were never used.
\<close>

definition busy_pageblock_state :: state where
  "busy_pageblock_state =
     (fresh [])
       \<lparr>radix_root := Some ((\<lambda>_. None)
          (0 \<mapsto> (\<lambda>_. None)
             (0 \<mapsto> (\<lambda>page. if 128 \<le> page \<and> page < 192 then Small 128 else Small 0)))),
        pageblocks := (\<lambda>_. zero_pageblock)(524288 := example_pageblock 524288 1 4 13),
        local_heap := (\<lambda>_ _. [])(0 := (\<lambda>_. [])(94 := [524288]))\<rparr>"

text \<open>
  On x86-64: the thread 0 with a pageblock of class 9 (objects of 40 bytes, 16 pages) at
  \<open>524288\<close>, whose first object, at \<open>524416\<close>, is in use, and a new pageblock of
  class 1 (objects of 8 bytes, 4 pages) at \<open>1048576\<close>, each at the head of the active
  list of its class and registered in the radix tree under its pages.
\<close>

definition shrink_state :: state where
  "shrink_state =
     (fresh [])
       \<lparr>radix_root := Some ((\<lambda>_. None)
          (0 \<mapsto> (\<lambda>_. None)
             (0 \<mapsto> (\<lambda>page. if 128 \<le> page \<and> page < 144 then Small 128
                             else if 256 \<le> page \<and> page < 260 then Small 256
                             else Small 0)))),
        pageblocks := (\<lambda>_. zero_pageblock)
          (524288 :=
             \<lparr>sph = 1024, freed = 0, unallocated = 2, owning_heap = 0, object_size = 40,
              num_free_objects = 1634, mem_pool_size = 65408, owning_thread = 0,
              garbage_head = \<lparr>qn_next = 0, qn_count = 0\<rparr>, mem_pool = 524416\<rparr>,
           1048576 :=
             \<lparr>sph = 1024, freed = 0, unallocated = 1, owning_heap = 0, object_size = 8,
              num_free_objects = 2032, mem_pool_size = 16256, owning_thread = 0,
              garbage_head = \<lparr>qn_next = 0, qn_count = 0\<rparr>, mem_pool = 1048704\<rparr>),
        local_heap := (\<lambda>_ _. [])(0 := (\<lambda>_. [])(9 := [524288], 1 := [1048576]))\<rparr>"

section \<open>Auxiliary definitions for the proofs\<close>

text \<open>The class of the size \<open>64 * q + r + 1\<close>, with bin \<open>q\<close> and position \<open>r\<close>.\<close>

definition class_qr :: "nat \<Rightarrow> nat \<Rightarrow> nat" where
  "class_qr q r = base ! q + (if r = 63 then 62 else r) div factor ! q"


text \<open>The fields of the state that the radix tree operations leave alone.\<close>

definition same_heap :: "state \<Rightarrow> state \<Rightarrow> bool" where
  "same_heap st st' \<longleftrightarrow>
     superpage_list st' = superpage_list st \<and> sph_pageblocks st' = sph_pageblocks st
     \<and> superpages st' = superpages st \<and> pageblocks st' = pageblocks st
     \<and> slot_next st' = slot_next st \<and> local_heap st' = local_heap st
     \<and> local_inactive_pageblocks st' = local_inactive_pageblocks st
     \<and> global_partial_pageblocks st' = global_partial_pageblocks st
     \<and> global_free_pageblocks st' = global_free_pageblocks st"

text \<open>The state of a fresh allocator after its first superpage is created, with the
  header at \<open>q\<close> and the pool at \<open>s\<close>; and the header of a pageblock as
  \<^verbatim>\<open>get_free_pageblock\<close> initialises it.\<close>

definition fresh_superpage_state :: "arch \<Rightarrow> nat \<Rightarrow> nat \<Rightarrow> nat list \<Rightarrow> state" where
  "fresh_superpage_state a q s rest =
     (fresh rest)\<lparr>events := [Mmap q (PAGE_SIZE a), Mmap s (SUPERPAGE_SIZE a)],
        sph_pageblocks := \<lparr>q_freed = 0, q_unallocated = q + SUPERPAGE_HEADER_SIZE a,
           q_num_free_objects = int (PAGE_SIZE a div SUPERPAGE_HEADER_SIZE a) - 1\<rparr>,
        superpages := (\<lambda>_. zero_superpage)(q := whole_superpage a s),
        superpage_list := [q]\<rparr>"

definition new_pageblock :: "nat \<Rightarrow> nat \<Rightarrow> nat \<Rightarrow> nat \<Rightarrow> nat \<Rightarrow> pageblock" where
  "new_pageblock t q r ps pb =
     \<lparr>sph = q, freed = 0, unallocated = 1, owning_heap = t, object_size = r,
      num_free_objects = int ((ps - pageblock_header_size) div r),
      mem_pool_size = ps - pageblock_header_size, owning_thread = t,
      garbage_head = \<lparr>qn_next = 0, qn_count = 0\<rparr>, mem_pool = pb + pageblock_header_size\<rparr>"


section \<open>Size classes: the class covers the request\<close>

lemma base_closed: "base = [0,16,24,28,30,31,31] @ concat (map (replicate 4) [32..<95])"
  by (simp add: base_def numeral_eq_Suc)

lemma factor_closed: "factor = [4,8,16,32,64,128] @ replicate 253 256"
  by (simp add: factor_def numeral_eq_Suc)

lemma reverse_closed:
  "reverse = map (\<lambda>j. 4 + 4 * j) [0..<16] @ map (\<lambda>j. 72 + 8 * j) [0..<8]
     @ map (\<lambda>j. 144 + 16 * j) [0..<4] @ map (\<lambda>j. 224 + 32 * j) [0..<2] @ [320, 448]
     @ map (\<lambda>j. 704 + 256 * j) [0..<63]"
  by (simp add: reverse_def upt_conv_Cons)

lemma concat_replicate4_nth:
  "i < 4 * length xs \<Longrightarrow> concat (map (replicate 4) xs) ! i = xs ! (i div 4)"
proof (induction xs arbitrary: i)
  case Nil
  then show ?case by simp
next
  case (Cons x xs)
  show ?case
  proof (cases "i < 4")
    case True
    then show ?thesis by (simp add: nth_append)
  next
    case False
    then have "i - 4 < 4 * length xs" using Cons.prems by simp
    moreover have "i div 4 = Suc ((i - 4) div 4)" using False by presburger
    ultimately show ?thesis using Cons.IH [of "i - 4"] False
      by (simp add: nth_append)
  qed
qed

lemma nth_append_from:
  "length xs = n \<Longrightarrow> n \<le> i \<Longrightarrow> (xs @ ys) ! i = ys ! (i - n)"
  by (simp add: nth_append)

lemma base_length: "length base = 259"
  by (simp add: base_def)

lemma factor_length: "length factor = 259"
  by (simp add: factor_def)

lemma reverse_length: "length reverse = 95"
  by (simp add: reverse_def)

lemma base_hi:
  assumes "7 \<le> b" and "b < 259"
  shows "base ! b = 32 + (b - 7) div 4"
proof -
  have "base ! b = concat (map (replicate 4) [32..<95]) ! (b - 7)"
    unfolding base_closed using assms by (intro nth_append_from) simp_all
  also have "\<dots> = [32..<95] ! ((b - 7) div 4)"
    using assms by (intro concat_replicate4_nth) (simp del: upt_rec_numeral)
  also have "\<dots> = 32 + (b - 7) div 4"
    using assms by (subst nth_upt) auto
  finally show ?thesis .
qed

lemma base_lo:
  "base ! 0 = 0" "base ! 1 = 16" "base ! Suc 0 = 16" "base ! 2 = 24" "base ! 3 = 28"
  "base ! 4 = 30" "base ! 5 = 31" "base ! 6 = 31"
  by (simp_all add: base_closed del: upt_rec_numeral)

lemma factor_hi:
  assumes "6 \<le> b" and "b < 259"
  shows "factor ! b = 256"
proof -
  have "factor ! b = replicate 253 256 ! (b - 6)"
    unfolding factor_closed using assms by (intro nth_append_from) simp_all
  then show ?thesis using assms by simp
qed

lemma factor_lo:
  "factor ! 0 = 4" "factor ! 1 = 8" "factor ! Suc 0 = 8" "factor ! 2 = 16" "factor ! 3 = 32"
  "factor ! 4 = 64" "factor ! 5 = 128"
  by (simp_all add: factor_closed)

lemma reverse_seg0: "j < 16 \<Longrightarrow> reverse ! j = 4 + 4 * j"
  by (simp add: reverse_closed nth_append del: upt_rec_numeral)

lemma reverse_seg1: "j < 8 \<Longrightarrow> reverse ! (16 + j) = 72 + 8 * j"
  by (simp add: reverse_closed nth_append del: upt_rec_numeral)

lemma reverse_seg2: "j < 4 \<Longrightarrow> reverse ! (24 + j) = 144 + 16 * j"
  by (simp add: reverse_closed nth_append del: upt_rec_numeral)

lemma reverse_seg3: "j < 2 \<Longrightarrow> reverse ! (28 + j) = 224 + 32 * j"
  by (simp add: reverse_closed nth_append del: upt_rec_numeral)

lemma reverse_seg4: "reverse ! 30 = 320" "reverse ! 31 = 448"
  by (simp_all add: reverse_closed nth_append del: upt_rec_numeral)

lemma reverse_hi: "j < 63 \<Longrightarrow> reverse ! (32 + j) = 704 + 256 * j"
  by (simp add: reverse_closed nth_append del: upt_rec_numeral)


lemma granularity_cases: "OBJECT_GRANULARITY a = 4 \<or> OBJECT_GRANULARITY a = 8"
  by (cases a) (simp_all add: OBJECT_GRANULARITY_def HEADER_SIZE_def)

lemma div_round_up: "0 < (k::nat) \<Longrightarrow> r + 1 \<le> k + k * (r div k)"
  using mod_less_divisor [of k r] mult_div_mod_eq [of k r] by linarith

lemma compute_size_class_qr:
  assumes "r < 64" and "q < 259" and "OBJECT_GRANULARITY a \<le> 64 * q + r + 1"
  shows "compute_size_class a (64 * q + r + 1) = Some (class_qr q r)"
proof (cases "r = 63")
  case True
  have "(64 * q + 63 + 1) mod 64 = 0" by simp
  moreover have "(64 * q + 63 + 1 - 1) div 64 = q" by simp
  moreover have "(64 * q + 63 + 1 - 2) mod 64 = 62" by simp
  ultimately show ?thesis
    using assms True
    by (simp add: compute_size_class_def Let_def CACHE_LINE_SIZE_def table_at_def
        base_length factor_length class_qr_def)
next
  case False
  then have r: "r < 63" using assms by simp
  then have "(64 * q + r + 1) mod 64 = r + 1" "(64 * q + r + 1) div 64 = q"
    by simp_all
  moreover have "(64 * q + r + 1 - 1) mod 64 = r" using assms by simp
  ultimately show ?thesis
    using assms False
    by (simp add: compute_size_class_def Let_def CACHE_LINE_SIZE_def table_at_def
        base_length factor_length class_qr_def)
qed

lemma position_div:
  assumes "r < 64" and "f = 4 \<or> f = 8 \<or> f = 16 \<or> f = 32"
  shows "(if r = 63 then 62 else r) div f = r div (f::nat)"
  using assms by auto

lemma class_qr_bound:
  assumes "r < 64" and "q < 259"
  shows "class_qr q r < 95 \<and> 64 * q + r + 1 \<le> reverse ! class_qr q r"
proof -
  consider "q = 0" | "q = 1" | "q = 2" | "q = 3" | "q = 4" | "q = 5" | "q = 6" | "7 \<le> q"
    by linarith
  then show ?thesis
  proof cases
    case 1
    have c: "class_qr q r = r div 4"
      using position_div [OF assms(1), of 4] by (simp add: class_qr_def 1 base_lo factor_lo)
    have j: "r div 4 < 16" using assms by (simp add: div_less_iff_less_mult)
    show ?thesis unfolding c using reverse_seg0 [OF j] j div_round_up [of 4 r] 1 by simp
  next
    case 2
    have c: "class_qr q r = 16 + r div 8"
      using position_div [OF assms(1), of 8] by (simp add: class_qr_def 2 base_lo factor_lo)
    have j: "r div 8 < 8" using assms by (simp add: div_less_iff_less_mult)
    show ?thesis unfolding c using reverse_seg1 [OF j] j div_round_up [of 8 r] 2 by simp
  next
    case 3
    have c: "class_qr q r = 24 + r div 16"
      using position_div [OF assms(1), of 16] by (simp add: class_qr_def 3 base_lo factor_lo)
    have j: "r div 16 < 4" using assms by (simp add: div_less_iff_less_mult)
    show ?thesis unfolding c using reverse_seg2 [OF j] j div_round_up [of 16 r] 3 by simp
  next
    case 4
    have c: "class_qr q r = 28 + r div 32"
      using position_div [OF assms(1), of 32] by (simp add: class_qr_def 4 base_lo factor_lo)
    have j: "r div 32 < 2" using assms by (simp add: div_less_iff_less_mult)
    show ?thesis unfolding c using reverse_seg3 [OF j] j div_round_up [of 32 r] 4 by simp
  next
    case 5
    have c: "class_qr q r = 30"
      using assms by (simp add: class_qr_def 5 base_lo factor_lo)
    show ?thesis unfolding c using assms 5 by (simp add: reverse_seg4)
  next
    case 6
    have c: "class_qr q r = 31"
      using assms by (simp add: class_qr_def 6 base_lo factor_lo)
    show ?thesis unfolding c using assms 6 by (simp add: reverse_seg4)
  next
    case 7
    have c: "class_qr q r = 31"
      using assms factor_hi [of 6] by (simp add: class_qr_def 7 base_lo)
    show ?thesis unfolding c using assms 7 by (simp add: reverse_seg4)
  next
    case 8
    have f: "factor ! q = 256" using 8 assms by (intro factor_hi) simp_all
    have c: "class_qr q r = 32 + (q - 7) div 4"
      using assms by (simp add: class_qr_def f base_hi [OF 8 assms(2)])
    have j: "(q - 7) div 4 < 63" using assms by (simp add: div_less_iff_less_mult)
    have "q - 7 + 1 \<le> 4 + 4 * ((q - 7) div 4)" by (rule div_round_up) simp
    then have "64 * q + r + 1 \<le> 704 + 256 * ((q - 7) div 4)" using 8 assms by linarith
    then show ?thesis unfolding c using reverse_hi [OF j] j by simp
  qed
qed

lemma size_decompose:
  assumes "0 < (g::nat)" and "g \<le> 16576"
  obtains q r :: nat where "g = 64 * q + r + 1" and "r < 64" and "q < 259"
proof
  show "g = 64 * ((g - 1) div 64) + (g - 1) mod 64 + 1" using assms by simp
  show "(g - 1) mod 64 < 64" by simp
  show "(g - 1) div 64 < 259" using assms by (simp add: div_less_iff_less_mult)
qed

lemma size_class_covers:
  assumes "0 < n" and "n \<le> MAX_OBJECT_SIZE"
  shows "\<exists>k r. compute_size_class a n = Some k \<and> reverse_size_class k = Some r \<and> n \<le> r"
proof -
  define g where "g = (if n < OBJECT_GRANULARITY a then OBJECT_GRANULARITY a else n)"
  have g: "OBJECT_GRANULARITY a \<le> g" "g \<le> 16576" "n \<le> g" "0 < g"
    using assms granularity_cases [of a] by (auto simp: g_def MAX_OBJECT_SIZE_def)
  have same: "compute_size_class a n = compute_size_class a g"
    by (simp add: compute_size_class_def g_def)
  obtain q r where qr: "g = 64 * q + r + 1" "r < 64" "q < 259"
    using size_decompose [OF g(4) g(2)] by blast
  have "compute_size_class a g = Some (class_qr q r)"
    unfolding qr(1) using qr g(1) by (intro compute_size_class_qr) simp_all
  moreover from class_qr_bound [OF qr(2,3)]
  have "reverse_size_class (class_qr q r) = Some (reverse ! class_qr q r)"
    and "g \<le> reverse ! class_qr q r"
    by (simp_all add: reverse_size_class_def table_at_def reverse_length qr(1))
  ultimately show ?thesis using same g(3) by auto
qed

lemma class_of_reverse:
  assumes "k < 95" and "OBJECT_GRANULARITY a \<le> reverse ! k"
  shows "compute_size_class a (reverse ! k) = Some k"
proof -
  consider "k < 16" | "16 \<le> k" "k < 24" | "24 \<le> k" "k < 28" | "28 \<le> k" "k < 30"
    | "k = 30" | "k = 31" | "32 \<le> k"
    by linarith
  then show ?thesis
  proof cases
    case 1
    have rv: "reverse ! k = 64 * 0 + (3 + 4 * k) + 1" using reverse_seg0 [OF 1] by simp
    have "compute_size_class a (reverse ! k) = Some (class_qr 0 (3 + 4 * k))"
      unfolding rv using 1 assms(2) [unfolded rv] by (intro compute_size_class_qr) simp_all
    moreover have "class_qr 0 (3 + 4 * k) = k"
      using 1 position_div [of "3 + 4 * k" 4] by (simp add: class_qr_def base_lo factor_lo)
    ultimately show ?thesis by simp
  next
    case 2
    define j where "j = k - 16"
    have k: "k = 16 + j" "j < 8" using 2 by (simp_all add: j_def)
    have rv: "reverse ! k = 64 * 1 + (7 + 8 * j) + 1" using reverse_seg1 [OF k(2)] k(1) by simp
    have "compute_size_class a (reverse ! k) = Some (class_qr 1 (7 + 8 * j))"
      unfolding rv using k assms(2) [unfolded rv] by (intro compute_size_class_qr) simp_all
    moreover have "class_qr 1 (7 + 8 * j) = k"
      using k position_div [of "7 + 8 * j" 8] by (simp add: class_qr_def base_lo factor_lo)
    ultimately show ?thesis by simp
  next
    case 3
    define j where "j = k - 24"
    have k: "k = 24 + j" "j < 4" using 3 by (simp_all add: j_def)
    have rv: "reverse ! k = 64 * 2 + (15 + 16 * j) + 1" using reverse_seg2 [OF k(2)] k(1) by simp
    have "compute_size_class a (reverse ! k) = Some (class_qr 2 (15 + 16 * j))"
      unfolding rv using k assms(2) [unfolded rv] by (intro compute_size_class_qr) simp_all
    moreover have "class_qr 2 (15 + 16 * j) = k"
      using k position_div [of "15 + 16 * j" 16] by (simp add: class_qr_def base_lo factor_lo)
    ultimately show ?thesis by simp
  next
    case 4
    define j where "j = k - 28"
    have k: "k = 28 + j" "j < 2" using 4 by (simp_all add: j_def)
    have rv: "reverse ! k = 64 * 3 + (31 + 32 * j) + 1" using reverse_seg3 [OF k(2)] k(1) by simp
    have "compute_size_class a (reverse ! k) = Some (class_qr 3 (31 + 32 * j))"
      unfolding rv using k assms(2) [unfolded rv] by (intro compute_size_class_qr) simp_all
    moreover have "class_qr 3 (31 + 32 * j) = k"
      using k position_div [of "31 + 32 * j" 32] by (simp add: class_qr_def base_lo factor_lo)
    ultimately show ?thesis by simp
  next
    case 5
    have rv: "reverse ! k = 64 * 4 + 63 + 1" using reverse_seg4 5 by simp
    have "compute_size_class a (reverse ! k) = Some (class_qr 4 63)"
      unfolding rv using assms(2) [unfolded rv] by (intro compute_size_class_qr) simp_all
    moreover have "class_qr 4 63 = k"
      using 5 by (simp add: class_qr_def base_lo factor_lo)
    ultimately show ?thesis by simp
  next
    case 6
    have rv: "reverse ! k = 64 * 6 + 63 + 1" using reverse_seg4 6 by simp
    have "compute_size_class a (reverse ! k) = Some (class_qr 6 63)"
      unfolding rv using assms(2) [unfolded rv] by (intro compute_size_class_qr) simp_all
    moreover have "class_qr 6 63 = k"
      using 6 factor_hi [of 6] by (simp add: class_qr_def base_lo)
    ultimately show ?thesis by simp
  next
    case 7
    define j where "j = k - 32"
    have k: "k = 32 + j" "j < 63" using 7 assms(1) by (simp_all add: j_def)
    have rv: "reverse ! k = 64 * (10 + 4 * j) + 63 + 1" using reverse_hi [OF k(2)] k(1) by simp
    have q: "7 \<le> 10 + 4 * j" "10 + 4 * j < 259" using k by simp_all
    have "compute_size_class a (reverse ! k) = Some (class_qr (10 + 4 * j) 63)"
      unfolding rv using q assms(2) [unfolded rv] by (intro compute_size_class_qr) simp_all
    moreover have "factor ! (10 + 4 * j) = 256" using q by (intro factor_hi) simp_all
    moreover have "base ! (10 + 4 * j) = 32 + j" using base_hi [OF q] by simp
    ultimately show ?thesis using k by (simp add: class_qr_def)
  qed
qed

lemma reverse_value:
  assumes "k < 95"
  shows "reverse ! k =
    (if k < 16 then 4 + 4 * k
     else if k < 24 then 72 + 8 * (k - 16)
     else if k < 28 then 144 + 16 * (k - 24)
     else if k < 30 then 224 + 32 * (k - 28)
     else if k = 30 then 320
     else if k = 31 then 448
     else 704 + 256 * (k - 32))"
proof -
  consider "k < 16" | "16 \<le> k" "k < 24" | "24 \<le> k" "k < 28" | "28 \<le> k" "k < 30"
    | "k = 30" | "k = 31" | "32 \<le> k"
    by linarith
  then show ?thesis
  proof cases
    case 1
    then show ?thesis by (simp add: reverse_seg0)
  next
    case 2
    then show ?thesis using reverse_seg1 [of "k - 16"] by simp
  next
    case 3
    then show ?thesis using reverse_seg2 [of "k - 24"] by simp
  next
    case 4
    then show ?thesis using reverse_seg3 [of "k - 28"] by simp
  next
    case 5
    then show ?thesis by (simp add: reverse_seg4)
  next
    case 6
    then show ?thesis by (simp add: reverse_seg4)
  next
    case 7
    then show ?thesis using reverse_hi [of "k - 32"] assms by simp
  qed
qed

lemma reverse_ge:
  assumes "k < 95"
  shows "4 \<le> reverse ! k" and "0 < k \<Longrightarrow> 8 \<le> reverse ! k"
  using assms by (simp_all add: reverse_value)

text \<open>
  Claim C1, as the code has it. For every request \<open>n\<close> with \<open>0 < n \<le> MAX_OBJECT_SIZE\<close>
  the class computed for \<open>n\<close> has a representative size of at least \<open>n\<close>. The table
  \<^verbatim>\<open>reverse\<close> has 95 entries, not \<open>OBJECT_SIZE_CLASSES\<close>: for every class \<open>k\<close> below
  95, the class of the representative size of \<open>k\<close> is \<open>k\<close> again, except for class 0 on
  the targets with 8-byte granularity, where a size of 4 is raised to 8 first.
\<close>

theorem size_class_representative:
  "(0 < n \<and> n \<le> MAX_OBJECT_SIZE \<longrightarrow>
      (\<exists>k r. compute_size_class a n = Some k \<and> reverse_size_class k = Some r \<and> n \<le> r))
   \<and> (k < length reverse \<and> (OBJECT_GRANULARITY a = 4 \<or> 0 < k) \<longrightarrow>
      (\<exists>r. reverse_size_class k = Some r \<and> compute_size_class a r = Some k))"
proof (intro conjI impI)
  assume "0 < n \<and> n \<le> MAX_OBJECT_SIZE"
  then show "\<exists>k r. compute_size_class a n = Some k \<and> reverse_size_class k = Some r \<and> n \<le> r"
    using size_class_covers [of n a] by simp
next
  assume h: "k < length reverse \<and> (OBJECT_GRANULARITY a = 4 \<or> 0 < k)"
  then have k: "k < 95" by (simp add: reverse_length)
  have "OBJECT_GRANULARITY a \<le> reverse ! k"
    using h reverse_ge [OF k] granularity_cases [of a] by auto
  then have "compute_size_class a (reverse ! k) = Some k"
    by (rule class_of_reverse [OF k])
  then show "\<exists>r. reverse_size_class k = Some r \<and> compute_size_class a r = Some k"
    using k by (simp add: reverse_size_class_def table_at_def reverse_length)
qed

theorem size_class_representative_witness:
  "(0::nat) < 40 \<and> 40 \<le> MAX_OBJECT_SIZE
   \<and> (\<exists>k r. compute_size_class X86_64 40 = Some k \<and> reverse_size_class k = Some r \<and> 40 \<le> r)
   \<and> 9 < length reverse \<and> (0::nat) < 9
   \<and> (\<exists>r. reverse_size_class 9 = Some r \<and> compute_size_class X86_64 r = Some 9)"
  using size_class_representative [of 40 X86_64 9]
  by (simp add: MAX_OBJECT_SIZE_def reverse_length)

text \<open>
  The claim as stated fails: class 95 is below \<open>OBJECT_SIZE_CLASSES\<close> and has no entry in
  \<^verbatim>\<open>reverse\<close>; and with 8-byte granularity the representative size of class 0, which is 4,
  is put in class 1.
\<close>

theorem size_class_inverse_counterexample:
  "95 < OBJECT_SIZE_CLASSES \<and> reverse_size_class 95 = None
   \<and> reverse_size_class 0 = Some 4 \<and> compute_size_class X86_64 4 = Some 1"
  by (simp add: OBJECT_SIZE_CLASSES_def reverse_size_class_def table_at_def reverse_length
      reverse_seg0 compute_size_class_def OBJECT_GRANULARITY_def HEADER_SIZE_def
      CACHE_LINE_SIZE_def base_length factor_length base_lo factor_lo)

section \<open>Local free and the active list\<close>

text \<open>
  Claim C7, as the code has it. After a local free that does not leave the pageblock
  completely free, the pageblock is moved to the head of the active list of its class
  when it is not the head already and has more than one free object; otherwise the
  list stays as it is. A pageblock whose free count goes from 0 to 1 therefore keeps its
  place.
\<close>

theorem local_free_active_list:
  assumes "num_free_objects (pageblocks st pageblock) + 1
             \<noteq> int (slot_count (pageblocks st pageblock))"
  shows "\<exists>st'. local_free a t object pageblock index st = Inr st'
           \<and> local_heap st' t index =
               (if pageblock \<noteq> list_head (local_heap st t index)
                   \<and> num_free_objects (pageblocks st pageblock) + 1 > 1
                then pageblock # remove1 pageblock (local_heap st t index)
                else local_heap st t index)"
  using assms
  by (simp add: local_free_def local_free_push_def slot_count_def set_pageblock_def
      set_active_def double_list_insert_front_def double_list_remove_def)

theorem local_free_active_list_witness:
  "num_free_objects (pageblocks (two_pageblocks 1 1) 262144) + 1
     \<noteq> int (slot_count (pageblocks (two_pageblocks 1 1) 262144))
   \<and> (\<exists>st'. local_free X86_64 0 278848 262144 94 (two_pageblocks 1 1) = Inr st'
          \<and> local_heap st' 0 94 = [262144, 524288])"
  using local_free_active_list [of "two_pageblocks 1 1" 262144 X86_64 0 278848 94]
  by (simp add: two_pageblocks_def example_pageblock_def fresh_def list_head_def slot_count_def)

text \<open>
  The claim as stated fails: the pageblock at the back of the list has no free object;
  after the local free of its first object it has one, and it is still at the back.
\<close>

theorem local_free_stays_counterexample:
  "(case local_free X86_64 0 262272 262144 94 (two_pageblocks 0 0) of
      Inl e \<Rightarrow> False
    | Inr st \<Rightarrow>
        num_free_objects (pageblocks (two_pageblocks 0 0) 262144) = 0
        \<and> num_free_objects (pageblocks st 262144) = 1
        \<and> local_heap st 0 94 = [524288, 262144])"
  by (simp add: local_free_def local_free_push_def set_pageblock_def set_active_def
      two_pageblocks_def example_pageblock_def fresh_def list_head_def slot_index_def)

section \<open>Buddy allocation\<close>

lemma page_pool_set_free_list [simp]: "page_pool (set_free_list j l sp) = page_pool sp"
  by (simp add: set_free_list_def)

lemma page_pool_change_bit [simp]: "page_pool (change_bit nr j sp) = page_pool sp"
  by (simp add: change_bit_def)

lemma find_bit_index_pool:
  "page_pool sp = page_pool sp' \<Longrightarrow> find_bit_index a sp c j = find_bit_index a sp' c j"
  by (simp add: find_bit_index_def find_index_def)

lemma find_index_pool:
  "page_pool sp = page_pool sp' \<Longrightarrow> find_index a sp c j = find_index a sp' c j"
  by (simp add: find_index_def)

lemma free_list_set_free_list:
  "free_list (buddy (set_free_list j l sp) i) = (if i = j then l else free_list (buddy sp i))"
  by (simp add: set_free_list_def)

lemma free_list_change_bit [simp]:
  "free_list (buddy (change_bit nr j sp) i) = free_list (buddy sp i)"
  by (simp add: change_bit_def)

lemma bitmap_set_free_list [simp]:
  "bitmap (buddy (set_free_list j l sp) i) = bitmap (buddy sp i)"
  by (simp add: set_free_list_def)

lemma bitmap_change_bit:
  "bitmap (buddy (change_bit nr j sp) i) =
     (if i = j then (bitmap (buddy sp i))(nr := \<not> bitmap (buddy sp i) nr) else bitmap (buddy sp i))"
  by (simp add: change_bit_def)

text \<open>The scan stops at the first order with a free chunk.\<close>

lemma buddy_alloc_scan_finds:
  assumes "order \<le> c" and "c < BUDDY_ORDER_MAX a"
    and "\<forall>j. order \<le> j \<and> j < c \<longrightarrow> free_list (buddy sp j) = []"
    and "free_list (buddy sp c) = h # rest"
  shows "buddy_alloc_scan a sp order =
           (h, c, change_bit (find_bit_index a sp h c) c (set_free_list c rest sp))"
  using assms
proof (induction "c - order" arbitrary: order)
  case 0
  then have "order = c" by simp
  then show ?case using 0 by (subst buddy_alloc_scan.simps) (simp add: double_list_remove_def)
next
  case (Suc d)
  then have lt: "order < c" and e: "free_list (buddy sp order) = []" by auto
  have "buddy_alloc_scan a sp order = buddy_alloc_scan a sp (order + 1)"
    using lt Suc.prems e by (subst buddy_alloc_scan.simps) simp
  also have "\<dots> = (h, c, change_bit (find_bit_index a sp h c) c (set_free_list c rest sp))"
    using Suc by (intro Suc.hyps(1)) auto
  finally show ?case .
qed

lemma pow_half: "0 < c \<Longrightarrow> (2::nat) ^ c div 2 = 2 ^ (c - 1)"
  by (cases c) simp_all

lemma pow_split:
  assumes "j < c"
  shows "(2::nat) ^ (c - 1) + (2 ^ (c - 1) - 2 ^ j) = 2 ^ c - 2 ^ j"
proof -
  obtain c' where c: "c = Suc c'" using assms by (cases c) auto
  have "(2::nat) ^ j \<le> 2 ^ c'" using assms c by (intro power_increasing) simp_all
  then show ?thesis using c by simp
qed

lemma buddy_alloc_split_result:
  assumes "order \<le> c" and "chunk \<noteq> 0"
  shows "\<exists>sp'. buddy_alloc_split a order c (2 ^ c) chunk sp
              = Inr (chunk + (2 ^ c - 2 ^ order) * PAGE_SIZE a, sp')
     \<and> page_pool sp' = page_pool sp
     \<and> largest_free_order sp' = largest_free_order sp
     \<and> (\<forall>j. free_list (buddy sp' j) =
           (if order \<le> j \<and> j < c
            then (chunk + (2 ^ c - 2 ^ (j + 1)) * PAGE_SIZE a) # free_list (buddy sp j)
            else free_list (buddy sp j)))
     \<and> (\<forall>j. bitmap (buddy sp' j) =
           (if order \<le> j \<and> j < c
            then (bitmap (buddy sp j))
                   (find_bit_index a sp (chunk + (2 ^ c - 2 ^ (j + 1)) * PAGE_SIZE a) j :=
                      \<not> bitmap (buddy sp j)
                          (find_bit_index a sp (chunk + (2 ^ c - 2 ^ (j + 1)) * PAGE_SIZE a) j))
            else bitmap (buddy sp j)))"
  using assms
proof (induction "c - order" arbitrary: c chunk sp)
  case 0
  then have "c = order" by simp
  then show ?case by (subst buddy_alloc_split.simps) auto
next
  case (Suc d)
  then have lt: "order < c" by simp
  define sp1 where "sp1 = change_bit (find_bit_index a sp chunk (c - 1)) (c - 1)
      (set_free_list (c - 1)
         (double_list_insert_front chunk (free_list (buddy sp (c - 1)))) sp)"
  define b where "b = chunk + 2 ^ (c - 1) * PAGE_SIZE a"
  have unfold: "buddy_alloc_split a order c (2 ^ c) chunk sp
      = buddy_alloc_split a order (c - 1) (2 ^ (c - 1)) b sp1"
    using lt Suc.prems
    by (subst buddy_alloc_split.simps) (simp add: Let_def pow_half sp1_def b_def)
  have d: "d = c - 1 - order" "order \<le> c - 1" "b \<noteq> 0"
    using Suc.hyps(2) lt Suc.prems by (simp_all add: b_def)
  from Suc.hyps(1) [OF d, of sp1]
  obtain sp' where sp':
    "buddy_alloc_split a order (c - 1) (2 ^ (c - 1)) b sp1
       = Inr (b + (2 ^ (c - 1) - 2 ^ order) * PAGE_SIZE a, sp')"
    "page_pool sp' = page_pool sp1"
    "largest_free_order sp' = largest_free_order sp1"
    "\<And>j. free_list (buddy sp' j) =
           (if order \<le> j \<and> j < c - 1
            then (b + (2 ^ (c - 1) - 2 ^ (j + 1)) * PAGE_SIZE a) # free_list (buddy sp1 j)
            else free_list (buddy sp1 j))"
    "\<And>j. bitmap (buddy sp' j) =
           (if order \<le> j \<and> j < c - 1
            then (bitmap (buddy sp1 j))
                   (find_bit_index a sp1 (b + (2 ^ (c - 1) - 2 ^ (j + 1)) * PAGE_SIZE a) j :=
                      \<not> bitmap (buddy sp1 j)
                          (find_bit_index a sp1 (b + (2 ^ (c - 1) - 2 ^ (j + 1)) * PAGE_SIZE a) j))
            else bitmap (buddy sp1 j))"
    by blast
  have addr: "\<And>j. j < c \<Longrightarrow>
      b + (2 ^ (c - 1) - 2 ^ j) * PAGE_SIZE a = chunk + (2 ^ c - 2 ^ j) * PAGE_SIZE a"
    using pow_split by (simp add: b_def add_mult_distrib [symmetric])
  have pool1: "page_pool sp1 = page_pool sp" by (simp add: sp1_def)
  have top: "(2::nat) ^ c - 2 ^ (c - 1 + 1) = 0" using lt by simp
  have fbi: "\<And>x j. find_bit_index a sp1 x j = find_bit_index a sp x j"
    using pool1 by (rule find_bit_index_pool)
  show ?case
  proof (intro exI conjI allI)
    show "buddy_alloc_split a order c (2 ^ c) chunk sp
        = Inr (chunk + (2 ^ c - 2 ^ order) * PAGE_SIZE a, sp')"
      using unfold sp'(1) addr [OF lt] by simp
    show "page_pool sp' = page_pool sp" using sp'(2) pool1 by simp
    show "largest_free_order sp' = largest_free_order sp"
      using sp'(3) by (simp add: sp1_def set_free_list_def change_bit_def)
  next
    fix j
    show "free_list (buddy sp' j) =
           (if order \<le> j \<and> j < c
            then (chunk + (2 ^ c - 2 ^ (j + 1)) * PAGE_SIZE a) # free_list (buddy sp j)
            else free_list (buddy sp j))"
    proof (cases "j = c - 1")
      case True
      then show ?thesis
        using sp'(4) [of j] lt top d(2)
        by (simp add: sp1_def free_list_set_free_list double_list_insert_front_def)
    next
      case False
      then have "free_list (buddy sp1 j) = free_list (buddy sp j)"
        by (simp add: sp1_def free_list_set_free_list)
      then show ?thesis
        using sp'(4) [of j] addr [of "j + 1"] False
        by auto
    qed
  next
    fix j
    show "bitmap (buddy sp' j) =
           (if order \<le> j \<and> j < c
            then (bitmap (buddy sp j))
                   (find_bit_index a sp (chunk + (2 ^ c - 2 ^ (j + 1)) * PAGE_SIZE a) j :=
                      \<not> bitmap (buddy sp j)
                          (find_bit_index a sp (chunk + (2 ^ c - 2 ^ (j + 1)) * PAGE_SIZE a) j))
            else bitmap (buddy sp j))"
    proof (cases "j = c - 1")
      case True
      then show ?thesis
        using sp'(5) [of j] lt top d(2)
        by (simp add: sp1_def bitmap_change_bit)
    next
      case False
      then have "bitmap (buddy sp1 j) = bitmap (buddy sp j)"
        by (simp add: sp1_def bitmap_change_bit)
      then show ?thesis
        using sp'(5) [of j] addr [of "j + 1"] False
        by (auto simp: fbi)
    qed
  qed
qed

lemma buddy_free_merge_stop1:
  "\<not> curr_order < BUDDY_ORDER_MAX a - 1 \<Longrightarrow>
   buddy_free_merge a super chunk curr_order = (curr_order, chunk, super)"
  by (subst buddy_free_merge.simps) simp

lemma buddy_free_merge_stop2:
  "curr_order < BUDDY_ORDER_MAX a - 1 \<Longrightarrow>
   \<not> bitmap (buddy super curr_order) (find_bit_index a super chunk curr_order) \<Longrightarrow>
   buddy_free_merge a super chunk curr_order =
     (curr_order, chunk, change_bit (find_bit_index a super chunk curr_order) curr_order super)"
  by (subst buddy_free_merge.simps) (simp add: Let_def)

lemma buddy_free_merge_step:
  "curr_order < BUDDY_ORDER_MAX a - 1 \<Longrightarrow>
   bitmap (buddy super curr_order) (find_bit_index a super chunk curr_order) \<Longrightarrow>
   buddy_free_merge a super chunk curr_order =
     (let nr = find_bit_index a super chunk curr_order;
          super1 = change_bit nr curr_order super;
          buddy_chunk = find_buddy a super1 chunk curr_order;
          super2 = set_free_list curr_order
                     (double_list_remove buddy_chunk (free_list (buddy super1 curr_order))) super1;
          chunk1 = (if find_index a super2 chunk curr_order mod 2 \<noteq> 0
                    then buddy_chunk else chunk)
      in buddy_free_merge a super2 chunk1 (curr_order + 1))"
  by (subst buddy_free_merge.simps) (simp add: Let_def)

lemma PAGE_SIZE_pos [simp]: "0 < PAGE_SIZE a"
  by (cases a) simp_all

lemma PAGE_SIZE_pow: "PAGE_SIZE a = 2 ^ PAGE_BITS a"
  by (cases a) simp_all

text \<open>\<^verbatim>\<open>quick_log2\<close> is the logarithm up to 4096; the source has
  \<^verbatim>\<open>case 8192: return 12\<close> and \<^verbatim>\<open>case 16384: return 13\<close>.\<close>

lemma quick_log2_pow: "j \<le> 12 \<Longrightarrow> quick_log2 (2 ^ j) = Some j"
proof -
  assume j: "j \<le> 12"
  show ?thesis
  proof (cases "j \<le> 6")
    case True
    then consider "j = 0" | "j = 1" | "j = 2" | "j = 3" | "j = 4" | "j = 5" | "j = 6"
      by linarith
    then show ?thesis by cases (simp_all add: quick_log2_def)
  next
    case False
    then consider "j = 7" | "j = 8" | "j = 9" | "j = 10" | "j = 11" | "j = 12"
      using j by linarith
    then show ?thesis by cases (simp_all add: quick_log2_def)
  qed
qed

lemma quick_log2_top: "quick_log2 8192 = Some 12" "quick_log2 16384 = Some 13"
  by (simp_all add: quick_log2_def)

lemma find_index_aligned:
  "find_index a sp (page_pool sp + k * (PAGE_SIZE a * 2 ^ j)) j = k"
  by (simp add: find_index_def)

lemma buddy_free_merge_aligned:
  assumes "buddy_free_merge a sp chunk j = (co, ch, sp')"
    and "chunk = page_pool sp + k * (PAGE_SIZE a * 2 ^ j)"
    and "k < 2 ^ (BUDDY_ORDER_MAX a - 1 - j)"
    and "j \<le> BUDDY_ORDER_MAX a - 1"
  shows "\<exists>k'. ch = page_pool sp + k' * (PAGE_SIZE a * 2 ^ co)
           \<and> k' < 2 ^ (BUDDY_ORDER_MAX a - 1 - co)
           \<and> j \<le> co \<and> co \<le> BUDDY_ORDER_MAX a - 1
           \<and> page_pool sp' = page_pool sp
           \<and> largest_free_order sp' = largest_free_order sp"
  using assms
proof (induction a sp chunk j arbitrary: k rule: buddy_free_merge.induct)
  case (1 a super chunk curr_order)
  show ?case
  proof (cases "curr_order < BUDDY_ORDER_MAX a - 1")
    case False
    then have "co = curr_order" "ch = chunk" "sp' = super"
      using "1.prems"(1) buddy_free_merge_stop1 [OF False, of super chunk] by simp_all
    then show ?thesis using "1.prems" by auto
  next
    case True
    define nr where "nr = find_bit_index a super chunk curr_order"
    define super1 where "super1 = change_bit nr curr_order super"
    show ?thesis
    proof (cases "bitmap (buddy super curr_order) nr")
      case False
      then have "co = curr_order" "ch = chunk" "sp' = super1"
        using "1.prems"(1) buddy_free_merge_stop2 [OF True, of super chunk]
        by (auto simp: nr_def super1_def)
      then show ?thesis using "1.prems" by (auto simp: super1_def change_bit_def)
    next
      case bit: True
      define buddy_chunk where "buddy_chunk = find_buddy a super1 chunk curr_order"
      define super2 where "super2 = set_free_list curr_order
          (double_list_remove buddy_chunk (free_list (buddy super1 curr_order))) super1"
      define chunk1 where "chunk1 = (if find_index a super2 chunk curr_order mod 2 \<noteq> 0
                             then buddy_chunk else chunk)"
      have step: "buddy_free_merge a super chunk curr_order
          = buddy_free_merge a super2 chunk1 (curr_order + 1)"
        unfolding chunk1_def super2_def buddy_chunk_def super1_def nr_def
        by (rule buddy_free_merge_step [OF True bit [unfolded nr_def], unfolded Let_def])
      have rec: "buddy_free_merge a super2 chunk1 (curr_order + 1) = (co, ch, sp')"
        using "1.prems"(1) step by simp
      have pool: "page_pool super2 = page_pool super" "page_pool super1 = page_pool super"
        by (simp_all add: super2_def super1_def)
      have lfo: "largest_free_order super2 = largest_free_order super"
        by (simp add: super2_def super1_def set_free_list_def change_bit_def)
      have idx: "find_index a super2 chunk curr_order = k" "find_index a super1 chunk curr_order = k"
        using find_index_aligned [of a super k curr_order] "1.prems"(2) pool
        by (simp_all add: find_index_def)
      have c1: "chunk1 = page_pool super2 + (k div 2) * (PAGE_SIZE a * 2 ^ (curr_order + 1))"
      proof (cases "k mod 2 = 0")
        case True
        then have "k = 2 * (k div 2)" by presburger
        then have "k * (PAGE_SIZE a * 2 ^ curr_order)
            = (k div 2) * (PAGE_SIZE a * 2 ^ (curr_order + 1))"
          by (metis mult.assoc mult.commute mult.left_commute power_add power_one_right add.commute)
        then show ?thesis using True idx "1.prems"(2) pool by (simp add: chunk1_def)
      next
        case False
        then have k: "k = 2 * (k div 2) + 1" by presburger
        have "k * (PAGE_SIZE a * 2 ^ curr_order)
            = (k div 2) * (PAGE_SIZE a * 2 ^ (curr_order + 1)) + 2 ^ curr_order * PAGE_SIZE a"
          by (subst k) (simp add: algebra_simps)
        then show ?thesis
          using False idx "1.prems"(2) pool
          by (simp add: chunk1_def buddy_chunk_def find_buddy_def)
      qed
      have "BUDDY_ORDER_MAX a - 1 - curr_order = Suc (BUDDY_ORDER_MAX a - 1 - (curr_order + 1))"
        using True by simp
      then have k2: "k div 2 < 2 ^ (BUDDY_ORDER_MAX a - 1 - (curr_order + 1))"
        using "1.prems"(3) by simp
      have le: "curr_order + 1 \<le> BUDDY_ORDER_MAX a - 1" using True by simp
      from "1.IH" [OF True nr_def _ super1_def _ buddy_chunk_def super2_def chunk1_def rec c1 k2 le]
      obtain k' where "ch = page_pool super2 + k' * (PAGE_SIZE a * 2 ^ co)"
        "k' < 2 ^ (BUDDY_ORDER_MAX a - 1 - co)" "curr_order + 1 \<le> co"
        "co \<le> BUDDY_ORDER_MAX a - 1" "page_pool sp' = page_pool super2"
        "largest_free_order sp' = largest_free_order super2"
        using bit by (auto simp: nr_def)
      then show ?thesis using pool lfo by auto
    qed
  qed
qed

text \<open>\<^verbatim>\<open>buddy_alloc\<close> with the order that \<^verbatim>\<open>quick_log2\<close> computes for the request.\<close>

lemma buddy_alloc_splits_log:
  assumes "quick_log2 (sz div PAGE_SIZE a) = Some order"
    and "order \<le> c" and "c < BUDDY_ORDER_MAX a"
    and "\<forall>j. order \<le> j \<and> j < c \<longrightarrow> free_list (buddy super j) = []"
    and "free_list (buddy super c) = h # rest" and "h \<noteq> 0"
  shows "\<exists>super'. buddy_alloc a super sz = Inr (h + (2 ^ c - 2 ^ order) * PAGE_SIZE a, super')
     \<and> free_list (buddy super' c) = rest
     \<and> bitmap (buddy super' c) = (bitmap (buddy super c))
          (find_bit_index a super h c := \<not> bitmap (buddy super c) (find_bit_index a super h c))
     \<and> (\<forall>j. order \<le> j \<and> j < c \<longrightarrow>
           free_list (buddy super' j) = [h + (2 ^ c - 2 ^ (j + 1)) * PAGE_SIZE a]
           \<and> bitmap (buddy super' j) = (bitmap (buddy super j))
                (find_bit_index a super (h + (2 ^ c - 2 ^ (j + 1)) * PAGE_SIZE a) j :=
                   \<not> bitmap (buddy super j)
                       (find_bit_index a super (h + (2 ^ c - 2 ^ (j + 1)) * PAGE_SIZE a) j)))
     \<and> (\<forall>j. j < order \<or> c < j \<longrightarrow>
           free_list (buddy super' j) = free_list (buddy super j)
           \<and> bitmap (buddy super' j) = bitmap (buddy super j))"
proof -
  define sp1 where "sp1 = change_bit (find_bit_index a super h c) c (set_free_list c rest super)"
  have scan: "buddy_alloc_scan a super order = (h, c, sp1)"
    unfolding sp1_def using assms(2-5) by (rule buddy_alloc_scan_finds)
  from buddy_alloc_split_result [OF assms(2) assms(6), of a sp1]
  obtain sp2 where sp2:
    "buddy_alloc_split a order c (2 ^ c) h sp1 = Inr (h + (2 ^ c - 2 ^ order) * PAGE_SIZE a, sp2)"
    "page_pool sp2 = page_pool sp1"
    "\<And>j. free_list (buddy sp2 j) =
           (if order \<le> j \<and> j < c
            then (h + (2 ^ c - 2 ^ (j + 1)) * PAGE_SIZE a) # free_list (buddy sp1 j)
            else free_list (buddy sp1 j))"
    "\<And>j. bitmap (buddy sp2 j) =
           (if order \<le> j \<and> j < c
            then (bitmap (buddy sp1 j))
                   (find_bit_index a sp1 (h + (2 ^ c - 2 ^ (j + 1)) * PAGE_SIZE a) j :=
                      \<not> bitmap (buddy sp1 j)
                          (find_bit_index a sp1 (h + (2 ^ c - 2 ^ (j + 1)) * PAGE_SIZE a) j))
            else bitmap (buddy sp1 j))"
    by blast
  have fbi: "\<And>x j. find_bit_index a sp1 x j = find_bit_index a super x j"
    by (rule find_bit_index_pool) (simp add: sp1_def)
  have fl1: "\<And>j. free_list (buddy sp1 j) = (if j = c then rest else free_list (buddy super j))"
    by (simp add: sp1_def free_list_set_free_list)
  have bm1: "\<And>j. bitmap (buddy sp1 j) =
      (if j = c then (bitmap (buddy super c))
          (find_bit_index a super h c := \<not> bitmap (buddy super c) (find_bit_index a super h c))
       else bitmap (buddy super j))"
    by (simp add: sp1_def bitmap_change_bit)
  have largest: "\<And>sp. buddy (buddy_alloc_largest a sp) = buddy sp"
    by (simp add: buddy_alloc_largest_def split: option.splits)
  have res: "buddy_alloc a super sz
      = Inr (h + (2 ^ c - 2 ^ order) * PAGE_SIZE a, buddy_alloc_largest a sp2)"
    by (simp add: buddy_alloc_def assms(1) scan sp2(1))
  show ?thesis
  proof (intro exI conjI allI impI)
    show "buddy_alloc a super sz
      = Inr (h + (2 ^ c - 2 ^ order) * PAGE_SIZE a, buddy_alloc_largest a sp2)"
      by (rule res)
    show "free_list (buddy (buddy_alloc_largest a sp2) c) = rest"
      by (simp add: largest sp2(3) fl1)
    show "bitmap (buddy (buddy_alloc_largest a sp2) c) = (bitmap (buddy super c))
          (find_bit_index a super h c := \<not> bitmap (buddy super c) (find_bit_index a super h c))"
      by (simp add: largest sp2(4) bm1)
  next
    fix j assume j: "order \<le> j \<and> j < c"
    then show "free_list (buddy (buddy_alloc_largest a sp2) j)
        = [h + (2 ^ c - 2 ^ (j + 1)) * PAGE_SIZE a]"
      using assms(4) by (simp add: largest sp2(3) fl1)
    from j show "bitmap (buddy (buddy_alloc_largest a sp2) j) = (bitmap (buddy super j))
                (find_bit_index a super (h + (2 ^ c - 2 ^ (j + 1)) * PAGE_SIZE a) j :=
                   \<not> bitmap (buddy super j)
                       (find_bit_index a super (h + (2 ^ c - 2 ^ (j + 1)) * PAGE_SIZE a) j))"
      by (simp add: largest sp2(4) bm1 fbi)
  next
    fix j assume j: "j < order \<or> c < j"
    then have nj: "\<not> (order \<le> j \<and> j < c)" "j \<noteq> c" using assms(2) by auto
    have "free_list (buddy sp2 j) = free_list (buddy sp1 j)"
      and "bitmap (buddy sp2 j) = bitmap (buddy sp1 j)"
      using nj(1) sp2(3) [of j] sp2(4) [of j] by auto
    then show "free_list (buddy (buddy_alloc_largest a sp2) j) = free_list (buddy super j)"
      and "bitmap (buddy (buddy_alloc_largest a sp2) j) = bitmap (buddy super j)"
      using nj(2) by (simp_all add: largest fl1 bm1)
  qed
qed

lemma whole_superpage_lists:
  "free_list (buddy (whole_superpage a pool) j) = (if j = BUDDY_ORDER_MAX a - 1 then [pool] else [])"
  by (simp add: whole_superpage_def empty_buddy_order_def)

text \<open>The slip of \<^verbatim>\<open>quick_log2\<close> on IA64, where a superpage has 16384 pages: a request
  for the whole of a new superpage is served as one of order 13, with the upper half.\<close>

lemma buddy_alloc_ia64_whole:
  "\<exists>super'. buddy_alloc IA64 (whole_superpage IA64 268435456) (SUPERPAGE_SIZE IA64)
      = Inr (268435456 + 134217728, super')"
proof -
  have 1: "quick_log2 (SUPERPAGE_SIZE IA64 div PAGE_SIZE IA64) = Some 13"
    by (simp add: quick_log2_def)
  have 2: "(13::nat) \<le> 14" "14 < BUDDY_ORDER_MAX IA64" by simp_all
  have 3: "\<forall>j. 13 \<le> j \<and> j < 14 \<longrightarrow> free_list (buddy (whole_superpage IA64 268435456) j) = []"
    by (simp add: whole_superpage_lists)
  have 4: "free_list (buddy (whole_superpage IA64 268435456) 14) = 268435456 # []"
    by (simp add: whole_superpage_lists)
  have 5: "(268435456::nat) \<noteq> 0" by simp
  from buddy_alloc_splits_log [OF 1 2 3 4 5] show ?thesis by auto
qed

text \<open>
  Claim C6, as the code has it. The request is for a chunk of order \<open>order\<close>, that is
  \<open>2 ^ order\<close> pages, with \<open>order\<close> at most 12: these are the sizes whose order
  \<^verbatim>\<open>quick_log2\<close> gives right (for 8192 and 16384 pages, orders 13 and 14 of an IA64
  superpage, it gives 12 and 13, and \<^verbatim>\<open>buddy_alloc\<close> then serves the order below the
  one asked for). When \<open>c\<close> is the lowest order from the requested order up with a free
  chunk, \<^verbatim>\<open>buddy_alloc\<close> takes the head \<open>h\<close> of that list and flips its bit; at each
  order \<open>j\<close> below \<open>c\<close> down to the requested one it puts the lower half on the free
  list of \<open>j\<close>, flips the bit of that pair, and goes on with the upper half. The address
  returned is the highest chunk of the requested order inside \<open>h\<close>.
\<close>

theorem buddy_alloc_splits:
  assumes "order \<le> 12"
    and "order \<le> c" and "c < BUDDY_ORDER_MAX a"
    and "\<forall>j. order \<le> j \<and> j < c \<longrightarrow> free_list (buddy super j) = []"
    and "free_list (buddy super c) = h # rest" and "h \<noteq> 0"
  shows "\<exists>super'. buddy_alloc a super (PAGE_SIZE a * 2 ^ order)
         = Inr (h + (2 ^ c - 2 ^ order) * PAGE_SIZE a, super')
     \<and> free_list (buddy super' c) = rest
     \<and> bitmap (buddy super' c) = (bitmap (buddy super c))
          (find_bit_index a super h c := \<not> bitmap (buddy super c) (find_bit_index a super h c))
     \<and> (\<forall>j. order \<le> j \<and> j < c \<longrightarrow>
           free_list (buddy super' j) = [h + (2 ^ c - 2 ^ (j + 1)) * PAGE_SIZE a]
           \<and> bitmap (buddy super' j) = (bitmap (buddy super j))
                (find_bit_index a super (h + (2 ^ c - 2 ^ (j + 1)) * PAGE_SIZE a) j :=
                   \<not> bitmap (buddy super j)
                       (find_bit_index a super (h + (2 ^ c - 2 ^ (j + 1)) * PAGE_SIZE a) j)))
     \<and> (\<forall>j. j < order \<or> c < j \<longrightarrow>
           free_list (buddy super' j) = free_list (buddy super j)
           \<and> bitmap (buddy super' j) = bitmap (buddy super j))"
proof -
  have "quick_log2 (PAGE_SIZE a * 2 ^ order div PAGE_SIZE a) = Some order"
    using assms(1) by (simp add: quick_log2_pow)
  from buddy_alloc_splits_log [OF this assms(2-6)] show ?thesis .
qed

theorem buddy_alloc_splits_witness:
  "(9::nat) \<le> 12 \<and> (9::nat) \<le> 10 \<and> 10 < BUDDY_ORDER_MAX X86
   \<and> free_list (buddy (whole_superpage X86 4194304) 9) = []
   \<and> free_list (buddy (whole_superpage X86 4194304) 10) = [4194304]
   \<and> (\<exists>super'. buddy_alloc X86 (whole_superpage X86 4194304) 2097152 = Inr (6291456, super')
        \<and> free_list (buddy super' 10) = []
        \<and> free_list (buddy super' 9) = [4194304]
        \<and> free_list (buddy super' 8) = [])"
proof -
  have 1: "(9::nat) \<le> 12" by simp
  have 2: "(9::nat) \<le> 10" "10 < BUDDY_ORDER_MAX X86" by simp_all
  have 3: "\<forall>j. 9 \<le> j \<and> j < 10 \<longrightarrow> free_list (buddy (whole_superpage X86 4194304) j) = []"
    by (simp add: whole_superpage_lists)
  have 4: "free_list (buddy (whole_superpage X86 4194304) 10) = 4194304 # []"
    by (simp add: whole_superpage_lists)
  have 5: "(4194304::nat) \<noteq> 0" by simp
  have sz: "PAGE_SIZE X86 * 2 ^ 9 = 2097152" by simp
  from buddy_alloc_splits [OF 1 2 3 4 5, unfolded sz]
  obtain super' where s:
    "buddy_alloc X86 (whole_superpage X86 4194304) 2097152
       = Inr (4194304 + (2 ^ 10 - 2 ^ 9) * PAGE_SIZE X86, super')"
    "free_list (buddy super' 10) = []"
    "\<forall>j. 9 \<le> j \<and> j < 10 \<longrightarrow>
        free_list (buddy super' j) = [4194304 + (2 ^ 10 - 2 ^ (j + 1)) * PAGE_SIZE X86]
        \<and> bitmap (buddy super' j) = (bitmap (buddy (whole_superpage X86 4194304) j))
                (find_bit_index X86 (whole_superpage X86 4194304)
                    (4194304 + (2 ^ 10 - 2 ^ (j + 1)) * PAGE_SIZE X86) j :=
                   \<not> bitmap (buddy (whole_superpage X86 4194304) j)
                       (find_bit_index X86 (whole_superpage X86 4194304)
                          (4194304 + (2 ^ 10 - 2 ^ (j + 1)) * PAGE_SIZE X86) j))"
    "\<forall>j. j < 9 \<or> 10 < j \<longrightarrow>
        free_list (buddy super' j) = free_list (buddy (whole_superpage X86 4194304) j)
        \<and> bitmap (buddy super' j) = bitmap (buddy (whole_superpage X86 4194304) j)"
    by blast
  have "free_list (buddy super' 9) = [4194304]" using s(3) by simp
  moreover have "free_list (buddy super' 8) = []" using s(4) by (simp add: whole_superpage_lists)
  ultimately show ?thesis using s(1,2) 1 2 by (simp add: whole_superpage_lists)
qed

text \<open>
  The claim as stated fails: a request for half of a new x86 superpage at \<open>4194304\<close>
  returns the upper half, \<open>6291456\<close>, and the lower half is the one on the free list of
  order 9.
\<close>

theorem buddy_alloc_upper_half_counterexample:
  "(case buddy_alloc X86 (whole_superpage X86 4194304) 2097152 of
      Inl e \<Rightarrow> False
    | Inr (chunk, super') \<Rightarrow> chunk = 6291456 \<and> free_list (buddy super' 9) = [4194304])"
proof -
  have scan: "buddy_alloc_scan X86 (whole_superpage X86 4194304) 9
      = (4194304, 10, change_bit (find_bit_index X86 (whole_superpage X86 4194304) 4194304 10) 10
           (set_free_list 10 [] (whole_superpage X86 4194304)))"
    by (rule buddy_alloc_scan_finds) (simp_all add: whole_superpage_lists)
  from buddy_alloc_split_result [of 9 10 4194304 X86
      "change_bit (find_bit_index X86 (whole_superpage X86 4194304) 4194304 10) 10
           (set_free_list 10 [] (whole_superpage X86 4194304))"]
  obtain sp' where sp':
    "buddy_alloc_split X86 9 10 (2 ^ 10) 4194304
       (change_bit (find_bit_index X86 (whole_superpage X86 4194304) 4194304 10) 10
           (set_free_list 10 [] (whole_superpage X86 4194304)))
       = Inr (4194304 + (2 ^ 10 - 2 ^ 9) * PAGE_SIZE X86, sp')"
    "free_list (buddy sp' 9) = [4194304]"
    by (auto simp: free_list_set_free_list whole_superpage_lists)
  have largest: "buddy (buddy_alloc_largest X86 sp') = buddy sp'"
    by (simp add: buddy_alloc_largest_def split: option.splits)
  show ?thesis
    using sp' by (simp add: buddy_alloc_def quick_log2_def scan largest)
qed










section \<open>Registration and lookup of pages\<close>

lemma radix_levels_inj:
  assumes "radix_level1 a p = radix_level1 a p'"
    and "radix_level2 a p = radix_level2 a p'"
    and "radix_level3 a p = radix_level3 a p'"
  shows "p = p'"
proof -
  define L where "L = RADIX_LEAF_BITS a"
  define I where "I = RADIX_INTERIOR_BITS a"
  have d: "\<And>x::nat. x div 2 ^ (I + L) = x div 2 ^ L div 2 ^ I"
    unfolding add.commute [of I L] power_add div_mult2_eq ..
  have hi: "p div 2 ^ L div 2 ^ I = p' div 2 ^ L div 2 ^ I"
    using assms(1) d [of p] d [of p'] by (simp add: radix_level1_def I_def L_def)
  have mid: "(p div 2 ^ L) mod 2 ^ I = (p' div 2 ^ L) mod 2 ^ I"
    using assms(2) by (simp add: radix_level2_def RADIX_INTERIOR_SIZE_def I_def L_def)
  have lo: "p mod 2 ^ L = p' mod 2 ^ L"
    using assms(3) by (simp add: radix_level3_def RADIX_LEAF_SIZE_def L_def)
  have "p div 2 ^ L = p' div 2 ^ L"
    using hi mid by (metis div_mult_mod_eq)
  then show ?thesis using lo by (metis div_mult_mod_eq)
qed

lemma same_heap_refl [simp]: "same_heap st st"
  by (simp add: same_heap_def)

lemma same_heap_trans: "same_heap st st1 \<Longrightarrow> same_heap st1 st2 \<Longrightarrow> same_heap st st2"
  by (simp add: same_heap_def)

lemma page_alloc_same_heap: "page_alloc sz st = Inr (addr, st') \<Longrightarrow> same_heap st st'"
  by (auto simp: page_alloc_def same_heap_def split: list.splits)

lemma page_alloc_radix: "page_alloc sz st = Inr (addr, st') \<Longrightarrow> radix_root st' = radix_root st"
  by (auto simp: page_alloc_def split: list.splits)

lemma radix_register_page_props:
  assumes "radix_register_page a page rec st = Inr st'"
  shows "same_heap st st'"
    and "radix_lookup a page st' = Some rec"
    and "\<And>p r. p \<noteq> page \<Longrightarrow> radix_lookup a p st = Some r \<Longrightarrow> radix_lookup a p st' = Some r"
    and "radix_root st' \<noteq> None"
proof -
  obtain root where root: "radix_root st = Some root"
    using assms by (auto simp: radix_register_page_def split: option.splits)
  obtain n2 st1 where n2:
    "(case root (radix_level1 a page) of
        Some n2 \<Rightarrow> Inr (n2, st)
      | None \<Rightarrow> (case radix_interior_alloc a st of
                   Inl e \<Rightarrow> Inl e
                 | Inr (_, st1) \<Rightarrow> Inr (empty_interior, st1))) = Inr (n2, st1)"
    using assms root by (auto simp: radix_register_page_def split: sum.splits)
  obtain leaf st2 where leaf:
    "(case n2 (radix_level2 a page) of
        Some leaf \<Rightarrow> Inr (leaf, st1)
      | None \<Rightarrow> (case radix_leaf_alloc a st1 of
                   Inl e \<Rightarrow> Inl e
                 | Inr (_, st2) \<Rightarrow> Inr (zero_leaf, st2))) = Inr (leaf, st2)"
    using assms root n2 by (auto simp: radix_register_page_def split: sum.splits)
  have st': "st' = st2\<lparr>radix_root :=
      Some (root(radix_level1 a page \<mapsto> n2(radix_level2 a page \<mapsto>
         leaf(radix_level3 a page := rec))))\<rparr>"
    using assms root n2 leaf by (simp add: radix_register_page_def)
  have h1: "same_heap st st1"
    using n2 by (auto simp: radix_interior_alloc_def split: option.splits sum.splits
        dest: page_alloc_same_heap)
  have h2: "same_heap st1 st2"
    using leaf by (auto simp: radix_leaf_alloc_def split: option.splits sum.splits
        dest: page_alloc_same_heap)
  show "same_heap st st'"
    using same_heap_trans [OF h1 h2] by (simp add: st' same_heap_def)
  show "radix_lookup a page st' = Some rec"
    by (simp add: st' radix_lookup_def)
  show "radix_root st' \<noteq> None" by (simp add: st')
  have n2_old: "\<And>m. root (radix_level1 a page) = Some m \<Longrightarrow> n2 = m"
    using n2 by auto
  have n2_new: "root (radix_level1 a page) = None \<Longrightarrow> n2 = empty_interior"
    using n2 by (auto split: sum.splits)
  have leaf_old: "\<And>l. n2 (radix_level2 a page) = Some l \<Longrightarrow> leaf = l"
    using leaf by auto
  fix p r
  assume ne: "p \<noteq> page" and old: "radix_lookup a p st = Some r"
  show "radix_lookup a p st' = Some r"
  proof (cases "radix_level1 a p = radix_level1 a page")
    case False
    then show ?thesis using old root by (simp add: st' radix_lookup_def)
  next
    case l1: True
    then obtain m where m: "root (radix_level1 a page) = Some m"
      using old root by (auto simp: radix_lookup_def split: option.splits)
    then have n2m: "n2 = m" by (rule n2_old)
    show ?thesis
    proof (cases "radix_level2 a p = radix_level2 a page")
      case False
      then show ?thesis using old root l1 m n2m by (simp add: st' radix_lookup_def)
    next
      case l2: True
      then obtain l where l: "n2 (radix_level2 a page) = Some l"
        using old root l1 m n2m by (auto simp: radix_lookup_def split: option.splits)
      then have ll: "leaf = l" by (rule leaf_old)
      have "radix_level3 a p \<noteq> radix_level3 a page"
        using radix_levels_inj [OF l1 l2] ne by blast
      then show ?thesis
        using old root l1 l2 m n2m l ll by (simp add: st' radix_lookup_def)
    qed
  qed
qed

lemma radix_register_pages_same_heap:
  "radix_register_pages a n page rec st = Inr st' \<Longrightarrow> same_heap st st'"
proof (induction n arbitrary: page st)
  case 0
  then show ?case by simp
next
  case (Suc n page st)
  then obtain st1 where s: "radix_register_page a page rec st = Inr st1"
    "radix_register_pages a n (page + 1) rec st1 = Inr st'"
    by (auto split: sum.splits)
  show ?case
    using same_heap_trans [OF radix_register_page_props(1) [OF s(1)] Suc.IH [OF s(2)]] .
qed

lemma radix_register_pages_other:
  "radix_register_pages a n page rec st = Inr st' \<Longrightarrow> p < page \<or> page + n \<le> p \<Longrightarrow>
   radix_lookup a p st = Some r \<Longrightarrow> radix_lookup a p st' = Some r"
proof (induction n arbitrary: page st)
  case 0
  then show ?case by simp
next
  case (Suc n page st)
  from Suc.prems(1) obtain st1 where s: "radix_register_page a page rec st = Inr st1"
    "radix_register_pages a n (page + 1) rec st1 = Inr st'"
    by (auto split: sum.splits)
  have "p \<noteq> page" using Suc.prems(2) by auto
  then have "radix_lookup a p st1 = Some r"
    using radix_register_page_props(3) [OF s(1)] Suc.prems(3) by blast
  then show ?case using Suc.IH [OF s(2)] Suc.prems(2) by auto
qed

lemma radix_register_pages_range:
  "radix_register_pages a n page rec st = Inr st' \<Longrightarrow> page \<le> p \<Longrightarrow> p < page + n \<Longrightarrow>
   radix_lookup a p st' = Some rec"
proof (induction n arbitrary: page st)
  case 0
  then show ?case by simp
next
  case (Suc n page st)
  from Suc.prems(1) obtain st1 where s: "radix_register_page a page rec st = Inr st1"
    "radix_register_pages a n (page + 1) rec st1 = Inr st'"
    by (auto split: sum.splits)
  show ?case
  proof (cases "p = page")
    case True
    have "radix_lookup a page st1 = Some rec" by (rule radix_register_page_props(2) [OF s(1)])
    then show ?thesis using radix_register_pages_other [OF s(2), of page rec] True by simp
  next
    case False
    then show ?thesis using Suc.IH [OF s(2)] Suc.prems(2,3) by simp
  qed
qed

lemma radix_register_props:
  assumes "radix_register a start n ptr sz ty st = Inr st'"
  shows "same_heap st st'"
    and "\<exists>lg. (if ty = OBJECT_MEDIUM then quick_log2 (sz div PAGE_SIZE a) else Some 0) = Some lg
           \<and> (\<forall>p. start div 2 ^ PAGE_BITS a \<le> p \<and> p < start div 2 ^ PAGE_BITS a + n \<longrightarrow>
                 radix_lookup a p st' = Some (make_record a ty ptr sz lg))"
    and "\<And>p r. p < start div 2 ^ PAGE_BITS a \<or> start div 2 ^ PAGE_BITS a + n \<le> p \<Longrightarrow>
           radix_lookup a p st = Some r \<Longrightarrow> radix_lookup a p st' = Some r"
proof -
  obtain st1 where st1:
    "(if radix_root st = None
      then (case radix_interior_alloc a st of
              Inl e \<Rightarrow> Inl e
            | Inr (_, st1) \<Rightarrow> Inr (st1\<lparr>radix_root := Some empty_interior\<rparr>))
      else Inr st) = Inr st1"
    using assms by (auto simp: radix_register_def split: sum.splits)
  obtain lg where lg:
    "(if ty = OBJECT_MEDIUM then quick_log2 (sz div PAGE_SIZE a) else Some 0) = Some lg"
    using assms st1 by (auto simp: radix_register_def split: option.splits)
  have pages: "radix_register_pages a n (start div 2 ^ PAGE_BITS a)
      (make_record a ty ptr sz lg) st1 = Inr st'"
    using assms st1 lg by (simp add: radix_register_def)
  have h1: "same_heap st st1"
    using st1
    by (auto simp: radix_interior_alloc_def same_heap_def page_alloc_def
        split: if_splits sum.splits list.splits)
  show "same_heap st st'"
    using same_heap_trans [OF h1 radix_register_pages_same_heap [OF pages]] .
  show "\<exists>lg. (if ty = OBJECT_MEDIUM then quick_log2 (sz div PAGE_SIZE a) else Some 0) = Some lg
           \<and> (\<forall>p. start div 2 ^ PAGE_BITS a \<le> p \<and> p < start div 2 ^ PAGE_BITS a + n \<longrightarrow>
                 radix_lookup a p st' = Some (make_record a ty ptr sz lg))"
    using lg radix_register_pages_range [OF pages] by blast
  fix p r
  assume out: "p < start div 2 ^ PAGE_BITS a \<or> start div 2 ^ PAGE_BITS a + n \<le> p"
    and old: "radix_lookup a p st = Some r"
  have "radix_root st \<noteq> None" using old by (auto simp: radix_lookup_def split: option.splits)
  then have "st1 = st" using st1 by auto
  then show "radix_lookup a p st' = Some r"
    using radix_register_pages_other [OF pages out] old by simp
qed

text \<open>Reading a record back.\<close>

lemma object_extract_small:
  "radix_lookup a (object div 2 ^ PAGE_BITS a) st = Some (Small v) \<Longrightarrow>
   object_extract a object ptr0 size0 st = Inr (v * 2 ^ PAGE_BITS a, size0, OBJECT_SMALL)"
  by (simp add: object_extract_def radix_extract_def)

lemma object_extract_medium:
  "radix_lookup a (object div 2 ^ PAGE_BITS a) st = Some (Medium lg v) \<Longrightarrow>
   object_extract a object ptr0 size0 st
     = Inr (v * 2 ^ SUPERPAGE_BITS, 2 ^ lg * PAGE_SIZE a, OBJECT_MEDIUM)"
  by (simp add: object_extract_def radix_extract_def)

lemma object_extract_large:
  "radix_lookup a (object div 2 ^ PAGE_BITS a) st = Some (Large v) \<Longrightarrow>
   object_extract a object ptr0 size0 st = Inr (ptr0, v, OBJECT_LARGE)"
  by (simp add: object_extract_def radix_extract_def)

lemma shift_round_trip:
  assumes "x mod 2 ^ b = 0" and "x < 2 ^ w" and "b \<le> w"
  shows "((x div 2 ^ b) mod 2 ^ (w - b)) * 2 ^ b = (x::nat)"
proof -
  have "x div 2 ^ b < 2 ^ (w - b)"
  proof -
    have "(2::nat) ^ w = 2 ^ (w - b) * 2 ^ b" using assms(3) by (simp add: power_add [symmetric])
    then show ?thesis using assms(2) by (simp add: div_less_iff_less_mult)
  qed
  then have "(x div 2 ^ b) mod 2 ^ (w - b) = x div 2 ^ b" by simp
  then show ?thesis using assms(1) by (simp add: mod_eq_0_iff_dvd)
qed

section \<open>The first allocation of a fresh allocator\<close>

lemma SUPERPAGE_SIZE_pow: "SUPERPAGE_SIZE a = PAGE_SIZE a * 2 ^ (BUDDY_ORDER_MAX a - 1)"
  by (cases a) simp_all

lemma BUDDY_ORDER_MAX_ge: "11 \<le> BUDDY_ORDER_MAX a"
  by (cases a) simp_all

lemma compute_pageblock_size_pages:
  assumes "k < 95"
  shows "\<exists>j. compute_pageblock_size a k = Some (PAGE_SIZE a * 2 ^ j) \<and> 2 \<le> j \<and> j \<le> 6"
proof -
  have r: "reverse_size_class k = Some (reverse ! k)"
    using assms by (simp add: reverse_size_class_def table_at_def reverse_length)
  define pow where "pow = (ceil_log2 (2 * ceil_pages a (reverse ! k * OBJECTS_PER_PAGEBLOCK)
      * ceil_pages a (reverse ! k * OBJECTS_PER_PAGEBLOCK)) + 1) div 2"
  have c: "compute_pageblock_size a k =
      (if 2 ^ pow < MIN_PAGEBLOCK_SIZE a then Some (MIN_PAGEBLOCK_SIZE a)
       else if 2 ^ pow > MAX_PAGEBLOCK_SIZE a then Some (MAX_PAGEBLOCK_SIZE a)
       else Some (2 ^ pow))"
    by (simp add: compute_pageblock_size_def r Let_def pow_def)
  consider "(2::nat) ^ pow < MIN_PAGEBLOCK_SIZE a"
    | "\<not> (2::nat) ^ pow < MIN_PAGEBLOCK_SIZE a" "2 ^ pow > MAX_PAGEBLOCK_SIZE a"
    | "\<not> (2::nat) ^ pow < MIN_PAGEBLOCK_SIZE a" "\<not> 2 ^ pow > MAX_PAGEBLOCK_SIZE a"
    by blast
  then show ?thesis
  proof cases
    case 1
    then have "compute_pageblock_size a k = Some (PAGE_SIZE a * 2 ^ 2)"
      by (simp add: c MIN_PAGEBLOCK_SIZE_def)
    then show ?thesis by (intro exI [of _ 2]) simp
  next
    case 2
    then have "compute_pageblock_size a k = Some (PAGE_SIZE a * 2 ^ 6)"
      by (simp add: c MAX_PAGEBLOCK_SIZE_def)
    then show ?thesis by (intro exI [of _ 6]) simp
  next
    case 3
    have lo: "(2::nat) ^ (PAGE_BITS a + 2) \<le> 2 ^ pow"
      using 3(1) by (simp add: MIN_PAGEBLOCK_SIZE_def PAGE_SIZE_pow power_add)
    have hi: "(2::nat) ^ pow \<le> 2 ^ (PAGE_BITS a + 6)"
      using 3(2) by (simp add: MAX_PAGEBLOCK_SIZE_def PAGE_SIZE_pow power_add)
    have b: "PAGE_BITS a + 2 \<le> pow" "pow \<le> PAGE_BITS a + 6"
      by (rule power_le_imp_le_exp [OF _ lo], simp, rule power_le_imp_le_exp [OF _ hi], simp)
    then have "(2::nat) ^ pow = PAGE_SIZE a * 2 ^ (pow - PAGE_BITS a)"
      by (simp add: PAGE_SIZE_pow power_add [symmetric])
    then have "compute_pageblock_size a k = Some (PAGE_SIZE a * 2 ^ (pow - PAGE_BITS a))"
      using 3 by (simp add: c)
    moreover have "2 \<le> pow - PAGE_BITS a" "pow - PAGE_BITS a \<le> 6" using b by linarith+
    ultimately show ?thesis by blast
  qed
qed

lemma pageblock_size_index_pages:
  assumes "2 \<le> j" and "j \<le> 6"
  shows "pageblock_size_index a (PAGE_SIZE a * 2 ^ j) = Inr (j - 2)"
proof -
  have "quick_log2 (2 ^ j) = Some j" using assms by (intro quick_log2_pow) simp
  moreover have "quick_log2 (MIN_PAGEBLOCK_SIZE a div PAGE_SIZE a) = Some 2"
    by (simp add: MIN_PAGEBLOCK_SIZE_def quick_log2_def)
  ultimately show ?thesis using assms by (simp add: pageblock_size_index_def)
qed

text \<open>The first superpage of a fresh allocator.\<close>

lemma quickie_alloc_fresh:
  "quickie_alloc a hs (fresh (q # rest)) =
     Inr (q, (fresh rest)\<lparr>events := [Mmap q (PAGE_SIZE a)],
            sph_pageblocks := \<lparr>q_freed = 0, q_unallocated = q + hs,
               q_num_free_objects = int (PAGE_SIZE a div hs) - 1\<rparr>\<rparr>)"
  by (simp add: quickie_alloc_def page_alloc_def fresh_def Let_def)

lemma new_superpage_eq:
  "set_free_list (BUDDY_ORDER_MAX a - 1)
     (double_list_insert_front s
        (free_list (buddy (clear_bitmaps (zero_superpage\<lparr>page_pool := s\<rparr>))
           (BUDDY_ORDER_MAX a - 1))))
     (clear_bitmaps (zero_superpage\<lparr>page_pool := s\<rparr>))
     \<lparr>largest_free_order := BUDDY_ORDER_MAX a - 1\<rparr> = whole_superpage a s"
  by (simp add: set_free_list_def clear_bitmaps_def zero_superpage_def whole_superpage_def
      double_list_insert_front_def empty_buddy_order_def fun_eq_iff)

lemma get_free_superpage_fresh:
  "get_free_superpage a sz (fresh (q # s # rest)) = Inr (q, fresh_superpage_state a q s rest)"
proof -
  define st_a where "st_a = (fresh (s # rest))\<lparr>events := [Mmap q (PAGE_SIZE a)],
            sph_pageblocks := \<lparr>q_freed = 0, q_unallocated = q + SUPERPAGE_HEADER_SIZE a,
               q_num_free_objects = int (PAGE_SIZE a div SUPERPAGE_HEADER_SIZE a) - 1\<rparr>\<rparr>"
  define st_b where "st_b = st_a\<lparr>mmap_results := rest,
      events := [Mmap q (PAGE_SIZE a), Mmap s (SUPERPAGE_SIZE a)]\<rparr>"
  have f: "find (\<lambda>x. superpage_fits a sz (superpages (fresh (q # s # rest)) x))
      (superpage_list (fresh (q # s # rest))) = None"
    by (simp add: fresh_def)
  have qa: "quickie_alloc a (SUPERPAGE_HEADER_SIZE a) (fresh (q # s # rest)) = Inr (q, st_a)"
    unfolding st_a_def by (rule quickie_alloc_fresh)
  have pa: "page_alloc (SUPERPAGE_SIZE a) st_a = Inr (s, st_b)"
    by (simp add: page_alloc_def st_a_def st_b_def fresh_def)
  have sp: "superpages st_b q = zero_superpage" "superpage_list st_b = []"
    by (simp_all add: st_b_def st_a_def fresh_def)
  have fin: "st_b\<lparr>superpages := (superpages st_b)(q := whole_superpage a s),
      superpage_list := [q]\<rparr> = fresh_superpage_state a q s rest"
    by (simp add: st_b_def st_a_def fresh_def fresh_superpage_state_def)
  show ?thesis
    by (simp add: get_free_superpage_def f qa pa Let_def sp
        new_superpage_eq [unfolded One_nat_def] double_list_insert_front_def [of q] fin)
qed

lemma buddy_alloc_returns:
  assumes "quick_log2 (sz div PAGE_SIZE a) = Some order"
    and "order \<le> c" and "c < BUDDY_ORDER_MAX a"
    and "\<forall>j. order \<le> j \<and> j < c \<longrightarrow> free_list (buddy super j) = []"
    and "free_list (buddy super c) = h # rest" and "h \<noteq> 0"
  shows "\<exists>super'. buddy_alloc a super sz = Inr (h + (2 ^ c - 2 ^ order) * PAGE_SIZE a, super')"
proof -
  define sp1 where "sp1 = change_bit (find_bit_index a super h c) c (set_free_list c rest super)"
  have scan: "buddy_alloc_scan a super order = (h, c, sp1)"
    unfolding sp1_def using assms(2-5) by (rule buddy_alloc_scan_finds)
  from buddy_alloc_split_result [OF assms(2) assms(6), of a sp1]
  obtain sp2 where
    "buddy_alloc_split a order c (2 ^ c) h sp1 = Inr (h + (2 ^ c - 2 ^ order) * PAGE_SIZE a, sp2)"
    by blast
  then show ?thesis by (simp add: buddy_alloc_def assms(1) scan)
qed

lemma supermap_fresh:
  assumes "j \<le> 12" and "j \<le> BUDDY_ORDER_MAX a - 1" and "s \<noteq> 0"
  shows "\<exists>sp'. supermap a (PAGE_SIZE a * 2 ^ j) (fresh (q # s # rest)) =
     Inr (s + (2 ^ (BUDDY_ORDER_MAX a - 1) - 2 ^ j) * PAGE_SIZE a,
          (fresh_superpage_state a q s rest)
            \<lparr>superpages := (superpages (fresh_superpage_state a q s rest))(q := sp'),
             pageblocks := (\<lambda>_. zero_pageblock)
               (s + (2 ^ (BUDDY_ORDER_MAX a - 1) - 2 ^ j) * PAGE_SIZE a :=
                  zero_pageblock\<lparr>sph := q\<rparr>)\<rparr>)"
proof -
  have ql: "quick_log2 (PAGE_SIZE a * 2 ^ j div PAGE_SIZE a) = Some j"
    using assms(1) by (simp add: quick_log2_pow)
  have m: "BUDDY_ORDER_MAX a - 1 < BUDDY_ORDER_MAX a" using BUDDY_ORDER_MAX_ge [of a] by simp
  have e: "\<forall>i. j \<le> i \<and> i < BUDDY_ORDER_MAX a - 1 \<longrightarrow> free_list (buddy (whole_superpage a s) i) = []"
    by (simp add: whole_superpage_lists)
  have h: "free_list (buddy (whole_superpage a s) (BUDDY_ORDER_MAX a - 1)) = s # []"
    by (simp add: whole_superpage_lists)
  from buddy_alloc_returns [OF ql assms(2) m e h assms(3)]
  obtain sp' where sp': "buddy_alloc a (whole_superpage a s) (PAGE_SIZE a * 2 ^ j)
      = Inr (s + (2 ^ (BUDDY_ORDER_MAX a - 1) - 2 ^ j) * PAGE_SIZE a, sp')"
    by blast
  have sq: "superpages (fresh_superpage_state a q s rest) q = whole_superpage a s"
    and pbs: "pageblocks (fresh_superpage_state a q s rest) = (\<lambda>_. zero_pageblock)"
    by (simp_all add: fresh_superpage_state_def fresh_def)
  show ?thesis
    using assms(3)
    by (intro exI [of _ sp']) (simp add: supermap_def get_free_superpage_fresh sq sp' pbs)
qed

lemma size_class_strong:
  assumes "0 < n" and "n \<le> MAX_OBJECT_SIZE"
  shows "\<exists>k. compute_size_class a n = Some k \<and> k < 95 \<and> n \<le> reverse ! k
           \<and> OBJECT_GRANULARITY a \<le> reverse ! k"
proof -
  define g where "g = (if n < OBJECT_GRANULARITY a then OBJECT_GRANULARITY a else n)"
  have g: "OBJECT_GRANULARITY a \<le> g" "g \<le> 16576" "n \<le> g" "0 < g"
    using assms granularity_cases [of a] by (auto simp: g_def MAX_OBJECT_SIZE_def)
  have same: "compute_size_class a n = compute_size_class a g"
    by (simp add: compute_size_class_def g_def)
  obtain q r where qr: "g = 64 * q + r + 1" "r < 64" "q < 259"
    using size_decompose [OF g(4) g(2)] by blast
  have "compute_size_class a g = Some (class_qr q r)"
    unfolding qr(1) using qr g(1) by (intro compute_size_class_qr) simp_all
  moreover from class_qr_bound [OF qr(2,3)]
  have "class_qr q r < 95" and "g \<le> reverse ! class_qr q r"
    by (simp_all add: qr(1))
  ultimately show ?thesis using same g(1,3) by auto
qed

lemma reverse_pos: "k < 95 \<Longrightarrow> 0 < reverse ! k"
  using reverse_ge(1) [of k] by simp

text \<open>The first small allocation of a fresh allocator.\<close>

lemma malloc_small_fresh_eq:
  assumes "0 < n" and "n \<le> MAX_OBJECT_SIZE" and "s \<noteq> 0"
  shows "\<exists>k j st_c. compute_size_class a n = Some k \<and> k < 95 \<and> n \<le> reverse ! k
      \<and> OBJECT_GRANULARITY a \<le> reverse ! k
      \<and> compute_pageblock_size a k = Some (PAGE_SIZE a * 2 ^ j) \<and> 2 \<le> j \<and> j \<le> 6
      \<and> mmap_results st_c = rest
      \<and> pageblocks st_c = (\<lambda>_. zero_pageblock)
           (s + (2 ^ (BUDDY_ORDER_MAX a - 1) - 2 ^ j) * PAGE_SIZE a := zero_pageblock\<lparr>sph := q\<rparr>)
      \<and> local_heap st_c = (\<lambda>_ _. []) \<and> slot_next st_c = (\<lambda>_. 0)
      \<and> local_inactive_pageblocks st_c = (\<lambda>_ _. ([], 0))
      \<and> malloc a t n (fresh (q # s # rest)) =
          (case register_pages a (s + (2 ^ (BUDDY_ORDER_MAX a - 1) - 2 ^ j) * PAGE_SIZE a) (2 ^ j)
                  (s + (2 ^ (BUDDY_ORDER_MAX a - 1) - 2 ^ j) * PAGE_SIZE a) 0 OBJECT_SMALL st_c of
             Inl e \<Rightarrow> Inl e
           | Inr st_d \<Rightarrow>
               (case malloc_reserve
                  ((pageblocks st_d (s + (2 ^ (BUDDY_ORDER_MAX a - 1) - 2 ^ j) * PAGE_SIZE a))
                      \<lparr>garbage_head := \<lparr>qn_next = 0, qn_count = 0\<rparr>,
                       freed := 0, unallocated := 1, object_size := reverse ! k,
                       mem_pool := s + (2 ^ (BUDDY_ORDER_MAX a - 1) - 2 ^ j) * PAGE_SIZE a
                          + pageblock_header_size,
                       mem_pool_size := PAGE_SIZE a * 2 ^ j - pageblock_header_size,
                       num_free_objects :=
                         int ((PAGE_SIZE a * 2 ^ j - pageblock_header_size) div reverse ! k),
                       owning_heap := t, owning_thread := t\<rparr>)
                  (slot_next st_d) of
                  (pointer, pbr) \<Rightarrow>
                    Inr (pointer,
                      st_d\<lparr>pageblocks := (pageblocks st_d)
                             (s + (2 ^ (BUDDY_ORDER_MAX a - 1) - 2 ^ j) * PAGE_SIZE a := pbr),
                           local_heap := (local_heap st_d)
                             (t := (local_heap st_d t)
                                (k := (let l = (s + (2 ^ (BUDDY_ORDER_MAX a - 1) - 2 ^ j) * PAGE_SIZE a)
                                              # local_heap st_d t k
                                       in if num_free_objects pbr = 0
                                          then double_list_rotate_back l else l)))\<rparr>)))"
proof -
  let ?f = "fresh (q # s # rest)"
  obtain k where k: "compute_size_class a n = Some k" "k < 95" "n \<le> reverse ! k"
    "OBJECT_GRANULARITY a \<le> reverse ! k"
    using size_class_strong [OF assms(1,2)] by blast
  obtain j where j: "compute_pageblock_size a k = Some (PAGE_SIZE a * 2 ^ j)" "2 \<le> j" "j \<le> 6"
    using compute_pageblock_size_pages [OF k(2)] by blast
  define pb where "pb = s + (2 ^ (BUDDY_ORDER_MAX a - 1) - 2 ^ j) * PAGE_SIZE a"
  have jm: "j \<le> 12" "j \<le> BUDDY_ORDER_MAX a - 1"
    using j(3) BUDDY_ORDER_MAX_ge [of a] by simp_all
  from supermap_fresh [OF jm assms(3), of q rest]
  obtain sp' where sm: "supermap a (PAGE_SIZE a * 2 ^ j) ?f =
     Inr (pb, (fresh_superpage_state a q s rest)
            \<lparr>superpages := (superpages (fresh_superpage_state a q s rest))(q := sp'),
             pageblocks := (\<lambda>_. zero_pageblock)(pb := zero_pageblock\<lparr>sph := q\<rparr>)\<rparr>)"
    unfolding pb_def by blast
  define st_c where "st_c = (fresh_superpage_state a q s rest)
            \<lparr>superpages := (superpages (fresh_superpage_state a q s rest))(q := sp'),
             pageblocks := (\<lambda>_. zero_pageblock)(pb := zero_pageblock\<lparr>sph := q\<rparr>)\<rparr>"
  have pb0: "pb \<noteq> 0" using assms(3) by (simp add: pb_def)
  have r: "reverse_size_class k = Some (reverse ! k)"
    using k(2) by (simp add: reverse_size_class_def table_at_def reverse_length)
  have si: "pageblock_size_index a (PAGE_SIZE a * 2 ^ j) = Inr (j - 2)"
    using j(2,3) by (rule pageblock_size_index_pages)
  have rg: "remove_global_pageblocks a k (PAGE_SIZE a * 2 ^ j) ?f = Inr (0, ?f)"
    by (simp add: remove_global_pageblocks_def lf_lifo_dequeue_def si fresh_def)
  have ina: "seq_lifo_dequeue (fst (local_inactive_pageblocks ?f t (j - 2))) = (0, [])"
    by (simp add: seq_lifo_dequeue_def fresh_def)
  have gfp: "get_free_pageblock a t k ?f =
      (case register_pages a pb (2 ^ j) pb 0 OBJECT_SMALL st_c of
         Inl e \<Rightarrow> Inl e
       | Inr st_d \<Rightarrow>
           Inr (pb, st_d\<lparr>pageblocks := (pageblocks st_d)
                   (pb := (pageblocks st_d pb)
                      \<lparr>garbage_head := \<lparr>qn_next = 0, qn_count = 0\<rparr>,
                       freed := 0, unallocated := 1, object_size := reverse ! k,
                       mem_pool := pb + pageblock_header_size,
                       mem_pool_size := PAGE_SIZE a * 2 ^ j - pageblock_header_size,
                       num_free_objects :=
                         int ((PAGE_SIZE a * 2 ^ j - pageblock_header_size) div reverse ! k),
                       owning_heap := t, owning_thread := t\<rparr>),
                 local_heap := (local_heap st_d)
                   (t := (local_heap st_d t)(k := pb # local_heap st_d t k))\<rparr>))"
    by (simp add: get_free_pageblock_def j(1) r si ina rg sm [folded st_c_def] pb0 Let_def
        double_list_insert_front_def split: sum.splits)
  have hd0: "list_head (local_heap ?f t k) = 0" by (simp add: list_head_def fresh_def)
  have m: "malloc a t n ?f =
      (case get_free_pageblock a t k ?f of
         Inl e \<Rightarrow> Inl e
       | Inr (pageblock, st2) \<Rightarrow>
           (case malloc_reserve (pageblocks st2 pageblock) (slot_next st2) of
              (pointer, pbr) \<Rightarrow>
                (let st3 = set_pageblock pageblock pbr st2;
                     st4 = (if num_free_objects pbr = 0
                            then set_active t k (double_list_rotate_back (local_heap st3 t k)) st3
                            else st3)
                 in Inr (pointer, st4))))"
    using assms(1,2)
    by (simp add: malloc_def malloc_compute_size_class_def k(1) hd0 Let_def)
  have c: "mmap_results st_c = rest"
    "pageblocks st_c = (\<lambda>_. zero_pageblock)(pb := zero_pageblock\<lparr>sph := q\<rparr>)"
    "local_heap st_c = (\<lambda>_ _. [])" "slot_next st_c = (\<lambda>_. 0)"
    "local_inactive_pageblocks st_c = (\<lambda>_ _. ([], 0))"
    by (simp_all add: st_c_def fresh_superpage_state_def fresh_def)
  have eq: "malloc a t n ?f =
          (case register_pages a pb (2 ^ j) pb 0 OBJECT_SMALL st_c of
             Inl e \<Rightarrow> Inl e
           | Inr st_d \<Rightarrow>
               (case malloc_reserve
                  ((pageblocks st_d pb)
                      \<lparr>garbage_head := \<lparr>qn_next = 0, qn_count = 0\<rparr>,
                       freed := 0, unallocated := 1, object_size := reverse ! k,
                       mem_pool := pb + pageblock_header_size,
                       mem_pool_size := PAGE_SIZE a * 2 ^ j - pageblock_header_size,
                       num_free_objects :=
                         int ((PAGE_SIZE a * 2 ^ j - pageblock_header_size) div reverse ! k),
                       owning_heap := t, owning_thread := t\<rparr>)
                  (slot_next st_d) of
                  (pointer, pbr) \<Rightarrow>
                    Inr (pointer,
                      st_d\<lparr>pageblocks := (pageblocks st_d)(pb := pbr),
                           local_heap := (local_heap st_d)
                             (t := (local_heap st_d t)
                                (k := (let l = pb # local_heap st_d t k
                                       in if num_free_objects pbr = 0
                                          then double_list_rotate_back l else l)))\<rparr>)))"
    unfolding m gfp
    by (simp add: Let_def set_pageblock_def set_active_def split: sum.splits prod.splits)
  show ?thesis
    using k j c eq unfolding pb_def by blast
qed

text \<open>Registration succeeds when the page provider has two results for every page and
  one for the root.\<close>

lemma radix_register_page_succeeds:
  assumes "radix_root st \<noteq> None" and "2 \<le> length (mmap_results st)"
  shows "\<exists>st'. radix_register_page a page rec st = Inr st'
           \<and> length (mmap_results st) \<le> length (mmap_results st') + 2
           \<and> radix_root st' \<noteq> None"
proof -
  obtain root where root: "radix_root st = Some root" using assms(1) by blast
  obtain x y rest where l: "mmap_results st = x # y # rest"
    using assms(2) by (cases "mmap_results st"; cases "tl (mmap_results st)") auto
  show ?thesis
    by (cases "root (radix_level1 a page)")
       (auto simp add: radix_register_page_def root l radix_interior_alloc_def
          radix_leaf_alloc_def page_alloc_def empty_interior_def
          split: option.splits)
qed

lemma radix_register_pages_succeeds:
  "radix_root st \<noteq> None \<Longrightarrow> 2 * n \<le> length (mmap_results st) \<Longrightarrow>
   \<exists>st'. radix_register_pages a n page rec st = Inr st'"
proof (induction n arbitrary: page st)
  case 0
  then show ?case by simp
next
  case (Suc n page st)
  from Suc.prems have "2 \<le> length (mmap_results st)" by simp
  from radix_register_page_succeeds [OF Suc.prems(1) this, of a page rec]
  obtain st1 where st1: "radix_register_page a page rec st = Inr st1"
    "length (mmap_results st) \<le> length (mmap_results st1) + 2" "radix_root st1 \<noteq> None"
    by blast
  have "2 * n \<le> length (mmap_results st1)" using Suc.prems(2) st1(2) by simp
  from Suc.IH [OF st1(3) this, of "page + 1"] show ?case by (simp add: st1(1))
qed

lemma radix_register_succeeds:
  assumes "ty \<noteq> OBJECT_MEDIUM" and "1 + 2 * n \<le> length (mmap_results st)"
  shows "\<exists>st'. radix_register a start n ptr sz ty st = Inr st'"
proof (cases "radix_root st")
  case None
  obtain x rest where l: "mmap_results st = x # rest"
    using assms(2) by (cases "mmap_results st") auto
  let ?st1 = "st\<lparr>mmap_results := rest, events := events st @ [Mmap x (radix_interior_bytes a)],
                  radix_root := Some empty_interior\<rparr>"
  have "radix_root ?st1 \<noteq> None" "2 * n \<le> length (mmap_results ?st1)"
    using assms(2) by (simp_all add: l)
  from radix_register_pages_succeeds [OF this]
  show ?thesis
    using assms(1) by (simp add: radix_register_def None radix_interior_alloc_def page_alloc_def l)
next
  case (Some root)
  have "radix_root st \<noteq> None" "2 * n \<le> length (mmap_results st)"
    using assms(2) Some by simp_all
  from radix_register_pages_succeeds [OF this]
  show ?thesis using assms(1) by (simp add: radix_register_def Some)
qed

lemma malloc_small_fresh_succeeds:
  assumes "0 < n" and "n \<le> MAX_OBJECT_SIZE" and "s \<noteq> 0" and "129 \<le> length rest"
  shows "\<exists>p st1. malloc a t n (fresh (q # s # rest)) = Inr (p, st1)"
proof -
  from malloc_small_fresh_eq [OF assms(1-3), of a rest q t]
  obtain k j st_c where j: "j \<le> 6" and c: "mmap_results st_c = rest"
    and eq: "malloc a t n (fresh (q # s # rest)) =
          (case register_pages a (s + (2 ^ (BUDDY_ORDER_MAX a - 1) - 2 ^ j) * PAGE_SIZE a) (2 ^ j)
                  (s + (2 ^ (BUDDY_ORDER_MAX a - 1) - 2 ^ j) * PAGE_SIZE a) 0 OBJECT_SMALL st_c of
             Inl e \<Rightarrow> Inl e
           | Inr st_d \<Rightarrow>
               (case malloc_reserve
                  ((pageblocks st_d (s + (2 ^ (BUDDY_ORDER_MAX a - 1) - 2 ^ j) * PAGE_SIZE a))
                      \<lparr>garbage_head := \<lparr>qn_next = 0, qn_count = 0\<rparr>,
                       freed := 0, unallocated := 1, object_size := reverse ! k,
                       mem_pool := s + (2 ^ (BUDDY_ORDER_MAX a - 1) - 2 ^ j) * PAGE_SIZE a
                          + pageblock_header_size,
                       mem_pool_size := PAGE_SIZE a * 2 ^ j - pageblock_header_size,
                       num_free_objects :=
                         int ((PAGE_SIZE a * 2 ^ j - pageblock_header_size) div reverse ! k),
                       owning_heap := t, owning_thread := t\<rparr>)
                  (slot_next st_d) of
                  (pointer, pbr) \<Rightarrow>
                    Inr (pointer,
                      st_d\<lparr>pageblocks := (pageblocks st_d)
                             (s + (2 ^ (BUDDY_ORDER_MAX a - 1) - 2 ^ j) * PAGE_SIZE a := pbr),
                           local_heap := (local_heap st_d)
                             (t := (local_heap st_d t)
                                (k := (let l = (s + (2 ^ (BUDDY_ORDER_MAX a - 1) - 2 ^ j) * PAGE_SIZE a)
                                              # local_heap st_d t k
                                       in if num_free_objects pbr = 0
                                          then double_list_rotate_back l else l)))\<rparr>)))"
    by blast
  have "(2::nat) ^ j \<le> 2 ^ 6" using j by (rule power_increasing) simp
  then have "1 + 2 * 2 ^ j \<le> length (mmap_results st_c)" using assms(4) c by simp
  from radix_register_succeeds [OF _ this, of OBJECT_SMALL a
      "s + (2 ^ (BUDDY_ORDER_MAX a - 1) - 2 ^ j) * PAGE_SIZE a"
      "s + (2 ^ (BUDDY_ORDER_MAX a - 1) - 2 ^ j) * PAGE_SIZE a" 0]
  obtain st_d where "register_pages a (s + (2 ^ (BUDDY_ORDER_MAX a - 1) - 2 ^ j) * PAGE_SIZE a) (2 ^ j)
                  (s + (2 ^ (BUDDY_ORDER_MAX a - 1) - 2 ^ j) * PAGE_SIZE a) 0 OBJECT_SMALL st_c = Inr st_d"
    unfolding register_pages_def by fastforce
  then show ?thesis unfolding eq by (simp split: prod.splits)
qed

text \<open>The state after the first small allocation of a fresh allocator.\<close>

lemma malloc_small_fresh:
  assumes "0 < n" and "n \<le> MAX_OBJECT_SIZE" and "s \<noteq> 0"
    and "malloc a t n (fresh (q # s # rest)) = Inr (p, st1)"
  shows "\<exists>k j pb c. compute_size_class a n = Some k \<and> k < 95 \<and> n \<le> reverse ! k
      \<and> OBJECT_GRANULARITY a \<le> reverse ! k
      \<and> compute_pageblock_size a k = Some (PAGE_SIZE a * 2 ^ j) \<and> 2 \<le> j \<and> j \<le> 6
      \<and> pb = s + (2 ^ (BUDDY_ORDER_MAX a - 1) - 2 ^ j) * PAGE_SIZE a
      \<and> c = (PAGE_SIZE a * 2 ^ j - pageblock_header_size) div reverse ! k
      \<and> p = pb + pageblock_header_size
      \<and> pageblocks st1 pb = (new_pageblock t q (reverse ! k) (PAGE_SIZE a * 2 ^ j) pb)
           \<lparr>unallocated := (if 2 > c then 0 else 2), num_free_objects := int c - 1\<rparr>
      \<and> local_heap st1 t k = [pb]
      \<and> local_inactive_pageblocks st1 = (\<lambda>_ _. ([], 0))
      \<and> slot_next st1 = (\<lambda>_. 0)
      \<and> (\<forall>page. pb div 2 ^ PAGE_BITS a \<le> page \<and> page < pb div 2 ^ PAGE_BITS a + 2 ^ j \<longrightarrow>
            radix_lookup a page st1 = Some (make_record a OBJECT_SMALL pb 0 0))"
proof -
  from malloc_small_fresh_eq [OF assms(1-3), of a rest q t]
  obtain k j st_c where k: "compute_size_class a n = Some k" "k < 95" "n \<le> reverse ! k"
      "OBJECT_GRANULARITY a \<le> reverse ! k"
    and j: "compute_pageblock_size a k = Some (PAGE_SIZE a * 2 ^ j)" "2 \<le> j" "j \<le> 6"
    and c: "pageblocks st_c = (\<lambda>_. zero_pageblock)
           (s + (2 ^ (BUDDY_ORDER_MAX a - 1) - 2 ^ j) * PAGE_SIZE a := zero_pageblock\<lparr>sph := q\<rparr>)"
      "local_heap st_c = (\<lambda>_ _. [])" "slot_next st_c = (\<lambda>_. 0)"
      "local_inactive_pageblocks st_c = (\<lambda>_ _. ([], 0))"
    and eq: "malloc a t n (fresh (q # s # rest)) =
          (case register_pages a (s + (2 ^ (BUDDY_ORDER_MAX a - 1) - 2 ^ j) * PAGE_SIZE a) (2 ^ j)
                  (s + (2 ^ (BUDDY_ORDER_MAX a - 1) - 2 ^ j) * PAGE_SIZE a) 0 OBJECT_SMALL st_c of
             Inl e \<Rightarrow> Inl e
           | Inr st_d \<Rightarrow>
               (case malloc_reserve
                  ((pageblocks st_d (s + (2 ^ (BUDDY_ORDER_MAX a - 1) - 2 ^ j) * PAGE_SIZE a))
                      \<lparr>garbage_head := \<lparr>qn_next = 0, qn_count = 0\<rparr>,
                       freed := 0, unallocated := 1, object_size := reverse ! k,
                       mem_pool := s + (2 ^ (BUDDY_ORDER_MAX a - 1) - 2 ^ j) * PAGE_SIZE a
                          + pageblock_header_size,
                       mem_pool_size := PAGE_SIZE a * 2 ^ j - pageblock_header_size,
                       num_free_objects :=
                         int ((PAGE_SIZE a * 2 ^ j - pageblock_header_size) div reverse ! k),
                       owning_heap := t, owning_thread := t\<rparr>)
                  (slot_next st_d) of
                  (pointer, pbr) \<Rightarrow>
                    Inr (pointer,
                      st_d\<lparr>pageblocks := (pageblocks st_d)
                             (s + (2 ^ (BUDDY_ORDER_MAX a - 1) - 2 ^ j) * PAGE_SIZE a := pbr),
                           local_heap := (local_heap st_d)
                             (t := (local_heap st_d t)
                                (k := (let l = (s + (2 ^ (BUDDY_ORDER_MAX a - 1) - 2 ^ j) * PAGE_SIZE a)
                                              # local_heap st_d t k
                                       in if num_free_objects pbr = 0
                                          then double_list_rotate_back l else l)))\<rparr>)))"
    by blast
  define pb where "pb = s + (2 ^ (BUDDY_ORDER_MAX a - 1) - 2 ^ j) * PAGE_SIZE a"
  define cnt where "cnt = (PAGE_SIZE a * 2 ^ j - pageblock_header_size) div reverse ! k"
  note eq' = eq [folded pb_def, folded cnt_def]
  note c' = c [folded pb_def]
  obtain st_d where reg: "register_pages a pb (2 ^ j) pb 0 OBJECT_SMALL st_c = Inr st_d"
    using assms(4) unfolding eq' by (cases "register_pages a pb (2 ^ j) pb 0 OBJECT_SMALL st_c") auto
  from radix_register_props [OF reg [unfolded register_pages_def]]
  have sh: "same_heap st_c st_d"
    and lk: "\<forall>page. pb div 2 ^ PAGE_BITS a \<le> page \<and> page < pb div 2 ^ PAGE_BITS a + 2 ^ j \<longrightarrow>
            radix_lookup a page st_d = Some (make_record a OBJECT_SMALL pb 0 0)"
    by simp_all
  have d: "pageblocks st_d = (\<lambda>_. zero_pageblock)(pb := zero_pageblock\<lparr>sph := q\<rparr>)"
    "local_heap st_d = (\<lambda>_ _. [])" "slot_next st_d = (\<lambda>_. 0)"
    "local_inactive_pageblocks st_d = (\<lambda>_ _. ([], 0))"
    using sh c' by (simp_all add: same_heap_def)
  have m: "malloc a t n (fresh (q # s # rest)) = Inr (pb + pageblock_header_size,
       st_d\<lparr>pageblocks := (pageblocks st_d)
              (pb := (new_pageblock t q (reverse ! k) (PAGE_SIZE a * 2 ^ j) pb)
                 \<lparr>unallocated := (if 2 > cnt then 0 else 2), num_free_objects := int cnt - 1\<rparr>),
            local_heap := (local_heap st_d)(t := (local_heap st_d t)(k := [pb]))\<rparr>)"
    unfolding eq' reg
    apply (simp add: d malloc_reserve_def Let_def zero_pageblock_def new_pageblock_def
        double_list_rotate_back_def cnt_def [symmetric])
    apply (simp add: numeral_2_eq_2)
    done
  from assms(4) [unfolded m]
  have res: "p = pb + pageblock_header_size"
    "st1 = st_d\<lparr>pageblocks := (pageblocks st_d)
              (pb := (new_pageblock t q (reverse ! k) (PAGE_SIZE a * 2 ^ j) pb)
                 \<lparr>unallocated := (if 2 > cnt then 0 else 2), num_free_objects := int cnt - 1\<rparr>),
            local_heap := (local_heap st_d)(t := (local_heap st_d t)(k := [pb]))\<rparr>"
    by simp_all
  have lk1: "\<forall>page. pb div 2 ^ PAGE_BITS a \<le> page \<and> page < pb div 2 ^ PAGE_BITS a + 2 ^ j \<longrightarrow>
            radix_lookup a page st1 = Some (make_record a OBJECT_SMALL pb 0 0)"
    using lk by (simp add: res(2) radix_lookup_def)
  have "pageblocks st1 pb = (new_pageblock t q (reverse ! k) (PAGE_SIZE a * 2 ^ j) pb)
           \<lparr>unallocated := (if 2 > cnt then 0 else 2), num_free_objects := int cnt - 1\<rparr>"
    "local_heap st1 t k = [pb]" "local_inactive_pageblocks st1 = (\<lambda>_ _. ([], 0))"
    "slot_next st1 = (\<lambda>_. 0)"
    by (simp_all add: res(2) d)
  with k j res(1) lk1 show ?thesis unfolding pb_def cnt_def by blast
qed

text \<open>A local free that leaves the pageblock completely free, with room in the
  thread's queue of inactive pageblocks.\<close>

lemma free_local_last:
  assumes "object \<noteq> 0"
    and "radix_lookup a (object div 2 ^ PAGE_BITS a) st = Some (Small v)"
    and "v * 2 ^ PAGE_BITS a = pb" and "pb \<noteq> 0"
    and "pageblocks st pb = P"
    and "free_compute_size_class a (object_size P) = Some k"
    and "owning_thread P = t"
    and "num_free_objects P + 1 = int (mem_pool_size P div object_size P)"
    and "pageblock_size_index a (mem_pool_size P + mem_pool P - pb) = Inr si"
    and "snd (local_inactive_pageblocks st t si) < MAX_PRIVATE_INACTIVE"
  shows "free a t object st =
     Inr (st\<lparr>pageblocks := (pageblocks st)
               (pb := P\<lparr>freed := slot_index P object,
                        num_free_objects := num_free_objects P + 1\<rparr>),
             slot_next := (slot_next st)(object := freed P),
             local_heap := (local_heap st)
               (t := (local_heap st t)(k := double_list_remove pb (local_heap st t k))),
             local_inactive_pageblocks := (local_inactive_pageblocks st)
               (t := (local_inactive_pageblocks st t)
                  (si := (pb # fst (local_inactive_pageblocks st t si),
                          snd (local_inactive_pageblocks st t si) + 1)))\<rparr>)"
proof -
  have ex: "object_extract a object 0 0 st = Inr (pb, 0, OBJECT_SMALL)"
    using object_extract_small [OF assms(2)] assms(3) by simp
  have lf: "local_free a t object pb k st =
     Inr (st\<lparr>pageblocks := (pageblocks st)
               (pb := P\<lparr>freed := slot_index P object,
                        num_free_objects := num_free_objects P + 1\<rparr>),
             slot_next := (slot_next st)(object := freed P),
             local_heap := (local_heap st)
               (t := (local_heap st t)(k := double_list_remove pb (local_heap st t k))),
             local_inactive_pageblocks := (local_inactive_pageblocks st)
               (t := (local_inactive_pageblocks st t)
                  (si := (pb # fst (local_inactive_pageblocks st t si),
                          snd (local_inactive_pageblocks st t si) + 1)))\<rparr>)"
    using assms(8,10)
    by (simp add: local_free_def local_free_push_def assms(5) assms(9) set_pageblock_def
        set_active_def seq_lifo_enqueue_def Let_def)
  show ?thesis
    using assms(1,4) by (simp add: free_def ex assms(5) assms(6) assms(7) lf)
qed

text \<open>An allocation that finds the active list of its class empty and takes a pageblock
  of the same object size from the thread's queue of inactive pageblocks.\<close>

lemma malloc_from_inactive:
  assumes "0 < n" and "n \<le> MAX_OBJECT_SIZE"
    and "compute_size_class a n = Some k"
    and "compute_pageblock_size a k = Some ps"
    and "reverse_size_class k = Some r"
    and "pageblock_size_index a ps = Inr si"
    and "local_heap st t k = []"
    and "fst (local_inactive_pageblocks st t si) = pb # others"
    and "pb \<noteq> 0"
    and "object_size (pageblocks st pb) = r"
    and "freed (pageblocks st pb) \<noteq> 0"
  shows "\<exists>st'. malloc a t n st =
           Inr (slot_addr (pageblocks st pb) (freed (pageblocks st pb)), st')
     \<and> pageblocks st' pb = (pageblocks st pb)
          \<lparr>owning_heap := t, owning_thread := t,
           freed := slot_next st (slot_addr (pageblocks st pb) (freed (pageblocks st pb))),
           num_free_objects := num_free_objects (pageblocks st pb) - 1\<rparr>
     \<and> slot_next st' = slot_next st
     \<and> local_heap st' t k = [pb]
     \<and> fst (local_inactive_pageblocks st' t si) = others"
proof -
  have gfp: "get_free_pageblock a t k st =
      Inr (pb, st\<lparr>local_inactive_pageblocks := (local_inactive_pageblocks st)
                      (t := (local_inactive_pageblocks st t)
                         (si := (others, snd (local_inactive_pageblocks st t si) - 1))),
                  pageblocks := (pageblocks st)
                      (pb := (pageblocks st pb)\<lparr>owning_heap := t, owning_thread := t\<rparr>),
                  local_heap := (local_heap st)(t := (local_heap st t)(k := [pb]))\<rparr>)"
    using assms(9,10)
    by (simp add: get_free_pageblock_def assms(4) assms(5) assms(6) assms(7) assms(8)
        seq_lifo_dequeue_def double_list_insert_front_def)
  have hd0: "list_head (local_heap st t k) = 0" by (simp add: assms(7) list_head_def)
  define st' where "st' =
     st\<lparr>local_inactive_pageblocks := (local_inactive_pageblocks st)
                      (t := (local_inactive_pageblocks st t)
                         (si := (others, snd (local_inactive_pageblocks st t si) - 1))),
        pageblocks := (pageblocks st)
          (pb := (pageblocks st pb)
             \<lparr>owning_heap := t, owning_thread := t,
              freed := slot_next st (slot_addr (pageblocks st pb) (freed (pageblocks st pb))),
              num_free_objects := num_free_objects (pageblocks st pb) - 1\<rparr>),
        local_heap := (local_heap st)(t := (local_heap st t)(k := [pb]))\<rparr>"
  have m: "malloc a t n st =
           Inr (slot_addr (pageblocks st pb) (freed (pageblocks st pb)), st')"
    using assms(1,2,11)
    by (simp add: malloc_def malloc_compute_size_class_def assms(3) hd0 gfp Let_def
        malloc_reserve_def slot_addr_def set_pageblock_def set_active_def st'_def
        double_list_rotate_back_def)
  show ?thesis
    by (intro exI [of _ st']) (simp add: m, simp add: st'_def)
qed

text \<open>A local free that does not leave the pageblock completely free, on the pageblock
  at the head of the active list of its class: the list stays as it is.\<close>

lemma free_local_head:
  assumes "p \<noteq> 0" and "pb \<noteq> 0"
    and "object_extract a p 0 0 st = Inr (pb, sz, OBJECT_SMALL)"
    and "pageblocks st pb = P"
    and "free_compute_size_class a (object_size P) = Some k"
    and "owning_thread P = t"
    and "local_heap st t k = pb # l"
    and "num_free_objects P + 1 \<noteq> int (slot_count P)"
  shows "free a t p st =
     Inr (st\<lparr>pageblocks := (pageblocks st)
               (pb := P\<lparr>freed := slot_index P p,
                        num_free_objects := num_free_objects P + 1\<rparr>),
             slot_next := (slot_next st)(p := freed P)\<rparr>)"
proof -
  have lf: "local_free a t p pb k st =
     Inr (st\<lparr>pageblocks := (pageblocks st)
               (pb := P\<lparr>freed := slot_index P p,
                        num_free_objects := num_free_objects P + 1\<rparr>),
             slot_next := (slot_next st)(p := freed P)\<rparr>)"
    using assms(8)
    by (simp add: local_free_def local_free_push_def assms(4) assms(7) set_pageblock_def
        set_active_def list_head_def slot_count_def Let_def)
  show ?thesis
    using assms(1,2) by (simp add: free_def assms(3) assms(4) assms(5) assms(6) lf)
qed

text \<open>An allocation from the pageblock at the head of the active list, when it has a
  free object and its freed list is not empty.\<close>

lemma malloc_from_freed_list:
  assumes "0 < n" and "n \<le> MAX_OBJECT_SIZE"
    and "compute_size_class a n = Some k"
    and "local_heap st t k = pb # l" and "pb \<noteq> 0"
    and "pageblocks st pb = P"
    and "num_free_objects P \<noteq> 0" and "freed P \<noteq> 0"
  shows "\<exists>st'. malloc a t n st = Inr (slot_addr P (freed P), st')
     \<and> pageblocks st' = (pageblocks st)
           (pb := P\<lparr>freed := slot_next st (slot_addr P (freed P)),
                    num_free_objects := num_free_objects P - 1\<rparr>)
     \<and> slot_next st' = slot_next st
     \<and> local_heap st' t k = (if num_free_objects P - 1 = 0
                              then double_list_rotate_back (pb # l) else pb # l)"
proof -
  have hd: "list_head (local_heap st t k) = pb" by (simp add: assms(4) list_head_def)
  have mr: "malloc_reserve P (slot_next st) =
      (slot_addr P (freed P),
       P\<lparr>freed := slot_next st (slot_addr P (freed P)),
         num_free_objects := num_free_objects P - 1\<rparr>)"
    using assms(8) by (simp add: malloc_reserve_def slot_addr_def Let_def)
  have m: "malloc a t n st =
     (case malloc_reserve (pageblocks st pb) (slot_next st) of
        (pointer, pbr) \<Rightarrow>
          (let st3 = set_pageblock pb pbr st;
               st4 = (if num_free_objects pbr = 0
                      then set_active t k (double_list_rotate_back (local_heap st3 t k)) st3
                      else st3)
           in Inr (pointer, st4)))"
    using assms(1,2,5,7)
    by (simp add: malloc_def malloc_compute_size_class_def assms(3) hd assms(6) Let_def)
  show ?thesis
    unfolding m assms(6) mr
    by (simp add: Let_def set_pageblock_def set_active_def assms(4))
qed

lemma pageblock_base_page:
  assumes "s mod PAGE_SIZE a = 0"
  shows "(s + m * PAGE_SIZE a) mod 2 ^ PAGE_BITS a = 0"
    and "(s + m * PAGE_SIZE a + pageblock_header_size) div 2 ^ PAGE_BITS a
           = (s + m * PAGE_SIZE a) div 2 ^ PAGE_BITS a"
proof -
  show al: "(s + m * PAGE_SIZE a) mod 2 ^ PAGE_BITS a = 0"
    using assms by (simp add: PAGE_SIZE_pow)
  have "pageblock_header_size < 2 ^ PAGE_BITS a"
    by (cases a) (simp_all add: pageblock_header_size_def CACHE_LINE_SIZE_def)
  moreover from al obtain x where "s + m * PAGE_SIZE a = 2 ^ PAGE_BITS a * x"
    by (auto simp: mod_eq_0_iff_dvd)
  ultimately show "(s + m * PAGE_SIZE a + pageblock_header_size) div 2 ^ PAGE_BITS a
           = (s + m * PAGE_SIZE a) div 2 ^ PAGE_BITS a"
    by simp
qed

section \<open>Allocation after a free\<close>

text \<open>
  Claim C8. First part: a thread \<open>t\<close> of a fresh allocator, whose page provider gives
  the superpage header at \<open>q\<close> and a page-aligned superpage at \<open>s\<close> inside the address
  space, allocates a small object (of 40 bytes, or any \<open>n\<close> up to \<open>MAX_OBJECT_SIZE\<close>) at
  \<open>p\<close> and frees it. The free succeeds; it makes the index of \<open>p\<close> the head of the
  freed list of the pageblock, adds one to its free objects and stores the old head in
  the object. The next allocation of the same size returns \<open>p\<close>, the object at
  \<open>mem_pool + (index - 1) * object_size\<close> for the head index; it makes the link read
  from the object the head of the freed list and takes one from the free objects, which
  gives back the pageblock as it was after the first allocation.

  Second part, for the freed list in general: in any state, let the pageblock at the
  head of the active list of a class be owned by the thread, and let \<open>p'\<close> be its object
  number \<open>i\<close>, in use, and not the last one in use. After the free of \<open>p'\<close> the freed
  list starts with \<open>i\<close>, linked to the old head; the next allocation of the class
  returns \<open>p'\<close> and gives back the pageblock as it was before the free.
\<close>

theorem small_round_trip:
  assumes "0 < n" and "n \<le> MAX_OBJECT_SIZE"
    and "s \<noteq> 0" and "s mod PAGE_SIZE a = 0"
    and "s + SUPERPAGE_SIZE a \<le> 2 ^ (8 * PTR_BYTES a)"
    and "malloc a t n (fresh (q # s # rest)) = Inr (p, st1)"
    and "0 < n'" and "n' \<le> MAX_OBJECT_SIZE"
    and "compute_size_class a' n' = Some k'"
    and "local_heap st t' k' = pb' # l" and "pb' \<noteq> 0"
    and "P = pageblocks st pb'"
    and "object_extract a' p' 0 0 st = Inr (pb', sz, OBJECT_SMALL)"
    and "free_compute_size_class a' (object_size P) = Some k'"
    and "owning_thread P = t'"
    and "0 < object_size P" and "slot_count P < 2 ^ 16"
    and "1 \<le> i" and "i \<le> slot_count P" and "p' = slot_addr P i" and "p' \<noteq> 0"
    and "0 \<le> num_free_objects P" and "num_free_objects P + 1 \<noteq> int (slot_count P)"
  shows "(\<exists>st2 st3 pb. free a t p st1 = Inr st2
            \<and> pageblocks st2 pb = (pageblocks st1 pb)
                 \<lparr>freed := slot_index (pageblocks st1 pb) p,
                  num_free_objects := num_free_objects (pageblocks st1 pb) + 1\<rparr>
            \<and> slot_next st2 = (slot_next st1)(p := freed (pageblocks st1 pb))
            \<and> freed (pageblocks st2 pb) \<noteq> 0
            \<and> slot_addr (pageblocks st2 pb) (freed (pageblocks st2 pb)) = p
            \<and> malloc a t n st2 = Inr (p, st3)
            \<and> freed (pageblocks st3 pb) = slot_next st2 p
            \<and> num_free_objects (pageblocks st3 pb) = num_free_objects (pageblocks st2 pb) - 1
            \<and> pageblocks st3 pb = pageblocks st1 pb
            \<and> slot_next st3 = slot_next st2)
       \<and> (\<exists>st2 st3. free a' t' p' st = Inr st2
            \<and> pageblocks st2 = (pageblocks st)
                 (pb' := P\<lparr>freed := i, num_free_objects := num_free_objects P + 1\<rparr>)
            \<and> slot_next st2 = (slot_next st)(p' := freed P)
            \<and> malloc a' t' n' st2 = Inr (p', st3)
            \<and> pageblocks st3 = pageblocks st
            \<and> slot_next st3 = slot_next st2)"
proof (intro conjI)
  from malloc_small_fresh [OF assms(1,2,3,6)]
  obtain k j pb c where k: "compute_size_class a n = Some k" "k < 95"
      "OBJECT_GRANULARITY a \<le> reverse ! k"
    and j: "compute_pageblock_size a k = Some (PAGE_SIZE a * 2 ^ j)" "2 \<le> j" "j \<le> 6"
    and pb: "pb = s + (2 ^ (BUDDY_ORDER_MAX a - 1) - 2 ^ j) * PAGE_SIZE a"
    and c: "c = (PAGE_SIZE a * 2 ^ j - pageblock_header_size) div reverse ! k"
    and p: "p = pb + pageblock_header_size"
    and P: "pageblocks st1 pb = (new_pageblock t q (reverse ! k) (PAGE_SIZE a * 2 ^ j) pb)
           \<lparr>unallocated := (if 2 > c then 0 else 2), num_free_objects := int c - 1\<rparr>"
    and lh: "local_heap st1 t k = [pb]"
    and li: "local_inactive_pageblocks st1 = (\<lambda>_ _. ([], 0))"
    and sn: "slot_next st1 = (\<lambda>_. 0)"
    and lk: "\<forall>page. pb div 2 ^ PAGE_BITS a \<le> page \<and> page < pb div 2 ^ PAGE_BITS a + 2 ^ j \<longrightarrow>
            radix_lookup a page st1 = Some (make_record a OBJECT_SMALL pb 0 0)"
    by blast
  define P1 where "P1 = pageblocks st1 pb"
  define v where "v = (pb div 2 ^ PAGE_BITS a) mod 2 ^ PAGE_PTR_BITS a"
  have pb0: "pb \<noteq> 0" and p0: "p \<noteq> 0" using assms(3) by (simp_all add: pb p)
  have al: "pb mod 2 ^ PAGE_BITS a = 0" and pg: "p div 2 ^ PAGE_BITS a = pb div 2 ^ PAGE_BITS a"
    unfolding p pb by (rule pageblock_base_page [OF assms(4)])+
  have lk1: "radix_lookup a (p div 2 ^ PAGE_BITS a) st1 = Some (Small v)"
    using lk [rule_format, of "pb div 2 ^ PAGE_BITS a"]
    by (simp add: pg make_record_def v_def)
  have jm: "(2::nat) ^ j \<le> 2 ^ (BUDDY_ORDER_MAX a - 1)"
    using j(3) BUDDY_ORDER_MAX_ge [of a] by (intro power_increasing) simp_all
  have "(2 ^ (BUDDY_ORDER_MAX a - 1) - 2 ^ j) * PAGE_SIZE a
          < 2 ^ (BUDDY_ORDER_MAX a - 1) * PAGE_SIZE a"
    using jm by simp
  then have "pb < s + SUPERPAGE_SIZE a"
    by (simp add: pb SUPERPAGE_SIZE_pow mult.commute)
  then have lt: "pb < 2 ^ (8 * PTR_BYTES a)" using assms(5) by simp
  have bits: "PAGE_BITS a \<le> 8 * PTR_BYTES a" by (cases a) simp_all
  have vpb: "v * 2 ^ PAGE_BITS a = pb"
    unfolding v_def PAGE_PTR_BITS_def mult.commute [of "PTR_BYTES a" 8]
    by (rule shift_round_trip [OF al lt bits])
  have hs: "pageblock_header_size \<le> PAGE_SIZE a * 2 ^ j"
  proof -
    have "pageblock_header_size \<le> PAGE_SIZE a * 1"
      by (cases a) (simp_all add: pageblock_header_size_def CACHE_LINE_SIZE_def)
    also have "\<dots> \<le> PAGE_SIZE a * 2 ^ j" by (intro mult_le_mono2) simp
    finally show ?thesis .
  qed
  have P1: "object_size P1 = reverse ! k" "owning_thread P1 = t" "freed P1 = 0"
    "num_free_objects P1 = int c - 1"
    "mem_pool_size P1 = PAGE_SIZE a * 2 ^ j - pageblock_header_size"
    "mem_pool P1 = pb + pageblock_header_size" "owning_heap P1 = t"
    by (simp_all add: P1_def P new_pageblock_def)
  have cls: "free_compute_size_class a (object_size P1) = Some k"
    by (simp add: P1(1) free_compute_size_class_def class_of_reverse [OF k(2,3)])
  have nf: "num_free_objects P1 + 1 = int (mem_pool_size P1 div object_size P1)"
    by (simp add: P1 c)
  have si0: "pageblock_size_index a (PAGE_SIZE a * 2 ^ j) = Inr (j - 2)"
    using j(2,3) by (rule pageblock_size_index_pages)
  have "mem_pool_size P1 + mem_pool P1 - pb = PAGE_SIZE a * 2 ^ j"
    using hs by (simp add: P1)
  then have si: "pageblock_size_index a (mem_pool_size P1 + mem_pool P1 - pb) = Inr (j - 2)"
    using si0 by simp
  have room: "snd (local_inactive_pageblocks st1 t (j - 2)) < MAX_PRIVATE_INACTIVE"
    by (simp add: li MAX_PRIVATE_INACTIVE_def)
  define st2 where "st2 = st1\<lparr>pageblocks := (pageblocks st1)
               (pb := P1\<lparr>freed := slot_index P1 p,
                        num_free_objects := num_free_objects P1 + 1\<rparr>),
             slot_next := (slot_next st1)(p := freed P1),
             local_heap := (local_heap st1)
               (t := (local_heap st1 t)(k := double_list_remove pb (local_heap st1 t k))),
             local_inactive_pageblocks := (local_inactive_pageblocks st1)
               (t := (local_inactive_pageblocks st1 t)
                  (j - 2 := (pb # fst (local_inactive_pageblocks st1 t (j - 2)),
                          snd (local_inactive_pageblocks st1 t (j - 2)) + 1)))\<rparr>"
  have fr: "free a t p st1 = Inr st2"
    unfolding st2_def
    by (rule free_local_last [OF p0 lk1 vpb pb0 P1_def [symmetric] cls P1(2) nf si room])
  have ix: "slot_index P1 p = 1"
    unfolding slot_index_def P1(1,6) p by simp
  have s2: "local_heap st2 t k = []" "fst (local_inactive_pageblocks st2 t (j - 2)) = pb # []"
    "object_size (pageblocks st2 pb) = reverse ! k" "freed (pageblocks st2 pb) = 1"
    "mem_pool (pageblocks st2 pb) = p" "slot_next st2 p = 0"
    by (simp_all add: st2_def lh li P1 ix double_list_remove_def p [symmetric])
  have s2p: "pageblocks st2 pb = P1\<lparr>freed := slot_index P1 p,
                        num_free_objects := num_free_objects P1 + 1\<rparr>"
    "slot_next st2 = (slot_next st1)(p := freed P1)"
    by (simp_all add: st2_def)
  have r: "reverse_size_class k = Some (reverse ! k)"
    using k(2) by (simp add: reverse_size_class_def table_at_def reverse_length)
  have f0: "freed (pageblocks st2 pb) \<noteq> 0" by (simp add: s2(4))
  have sa: "slot_addr (pageblocks st2 pb) (freed (pageblocks st2 pb)) = p"
    by (simp add: slot_addr_def s2)
  from malloc_from_inactive [OF assms(1,2) k(1) j(1) r si0 s2(1) s2(2) pb0 s2(3) f0]
  obtain st3 where m2: "malloc a t n st2 =
      Inr (slot_addr (pageblocks st2 pb) (freed (pageblocks st2 pb)), st3)"
    and p3: "pageblocks st3 pb = (pageblocks st2 pb)
          \<lparr>owning_heap := t, owning_thread := t,
           freed := slot_next st2 (slot_addr (pageblocks st2 pb) (freed (pageblocks st2 pb))),
           num_free_objects := num_free_objects (pageblocks st2 pb) - 1\<rparr>"
    and n3: "slot_next st3 = slot_next st2"
    by blast
  have p3': "pageblocks st3 pb = (pageblocks st2 pb)
          \<lparr>owning_heap := t, owning_thread := t, freed := 0,
           num_free_objects := num_free_objects (pageblocks st2 pb) - 1\<rparr>"
    using p3 unfolding sa s2(6) .
  have "P1\<lparr>freed := 1, num_free_objects := num_free_objects P1 + 1,
           owning_heap := t, owning_thread := t, freed := 0,
           num_free_objects := num_free_objects P1 + 1 - 1\<rparr> = P1"
    by (simp add: P1_def P new_pageblock_def)
  then have e3: "pageblocks st3 pb = P1"
    unfolding p3' s2p(1) ix by simp
  have f3: "freed (pageblocks st3 pb) = slot_next st2 p"
    "num_free_objects (pageblocks st3 pb) = num_free_objects (pageblocks st2 pb) - 1"
    unfolding p3 sa by simp_all
  show "\<exists>st2 st3 pb. free a t p st1 = Inr st2
            \<and> pageblocks st2 pb = (pageblocks st1 pb)
                 \<lparr>freed := slot_index (pageblocks st1 pb) p,
                  num_free_objects := num_free_objects (pageblocks st1 pb) + 1\<rparr>
            \<and> slot_next st2 = (slot_next st1)(p := freed (pageblocks st1 pb))
            \<and> freed (pageblocks st2 pb) \<noteq> 0
            \<and> slot_addr (pageblocks st2 pb) (freed (pageblocks st2 pb)) = p
            \<and> malloc a t n st2 = Inr (p, st3)
            \<and> freed (pageblocks st3 pb) = slot_next st2 p
            \<and> num_free_objects (pageblocks st3 pb) = num_free_objects (pageblocks st2 pb) - 1
            \<and> pageblocks st3 pb = pageblocks st1 pb
            \<and> slot_next st3 = slot_next st2"
    using fr s2p [unfolded P1_def] f0 sa m2 [unfolded sa] f3 e3 [unfolded P1_def] n3
    by blast
next
  have nf: "num_free_objects P + 1 \<noteq> int (slot_count P)" by (rule assms(23))
  define st2 where "st2 = st\<lparr>pageblocks := (pageblocks st)
               (pb' := P\<lparr>freed := slot_index P p',
                        num_free_objects := num_free_objects P + 1\<rparr>),
             slot_next := (slot_next st)(p' := freed P)\<rparr>"
  have fr: "free a' t' p' st = Inr st2"
    unfolding st2_def
    by (rule free_local_head [OF assms(21) assms(11) assms(13) assms(12) [symmetric] assms(14)
          assms(15) assms(10) nf])
  obtain i' where i': "i = Suc i'" using assms(18) by (cases i) auto
  have "i < 2 ^ 16" using assms(17,19) by simp
  then have ix: "slot_index P p' = i"
    using assms(16) by (simp add: slot_index_def assms(20) slot_addr_def i')
  define P2 where "P2 = P\<lparr>freed := i, num_free_objects := num_free_objects P + 1\<rparr>"
  have s2: "local_heap st2 t' k' = pb' # l" "pageblocks st2 pb' = P2"
    "pageblocks st2 = (pageblocks st)(pb' := P2)"
    "slot_next st2 = (slot_next st)(p' := freed P)"
    by (simp_all add: st2_def assms(10) ix P2_def)
  have P2: "num_free_objects P2 \<noteq> 0" "freed P2 \<noteq> 0" "slot_addr P2 (freed P2) = p'"
    using assms(22) i' by (simp_all add: P2_def slot_addr_def assms(20))
  from malloc_from_freed_list [OF assms(7,8,9) s2(1) assms(11) s2(2) P2(1,2)]
  obtain st3 where m: "malloc a' t' n' st2 = Inr (slot_addr P2 (freed P2), st3)"
    and p3: "pageblocks st3 = (pageblocks st2)
           (pb' := P2\<lparr>freed := slot_next st2 (slot_addr P2 (freed P2)),
                    num_free_objects := num_free_objects P2 - 1\<rparr>)"
    and n3: "slot_next st3 = slot_next st2"
    by blast
  have "P2\<lparr>freed := slot_next st2 p', num_free_objects := num_free_objects P2 - 1\<rparr> = P"
    by (simp add: P2_def s2(4))
  then have e3: "pageblocks st3 = pageblocks st"
    unfolding p3 P2(3) s2(3) by (simp add: assms(12))
  show "\<exists>st2 st3. free a' t' p' st = Inr st2
            \<and> pageblocks st2 = (pageblocks st)
                 (pb' := P\<lparr>freed := i, num_free_objects := num_free_objects P + 1\<rparr>)
            \<and> slot_next st2 = (slot_next st)(p' := freed P)
            \<and> malloc a' t' n' st2 = Inr (p', st3)
            \<and> pageblocks st3 = pageblocks st
            \<and> slot_next st3 = slot_next st2"
    using fr s2(3) [unfolded P2_def] s2(4) m [unfolded P2(3)] e3 n3 by blast
qed

text \<open>The round trips on x86-64: with 40 bytes on a fresh allocator, for a provider with
  enough pages for the radix tree; and with the object 3 of the pageblock of the
  example, whose freed list holds the object 1.\<close>

theorem small_round_trip_witness:
  "(\<exists>p st1 st2 st3.
     malloc X86_64 0 40 (fresh (65536 # 8388608 # map (\<lambda>i. 33554432 + i * 4096) [0..<129]))
       = Inr (p, st1)
     \<and> free X86_64 0 p st1 = Inr st2
     \<and> malloc X86_64 0 40 st2 = Inr (p, st3)
     \<and> slot_next st3 = slot_next st2)
   \<and> compute_size_class X86_64 16576 = Some 94
   \<and> local_heap busy_pageblock_state 0 94 = [524288]
   \<and> object_extract X86_64 557568 0 0 busy_pageblock_state = Inr (524288, 0, OBJECT_SMALL)
   \<and> slot_addr (pageblocks busy_pageblock_state 524288) 3 = 557568
   \<and> freed (pageblocks busy_pageblock_state 524288) = 1
   \<and> (\<exists>st2 st3. free X86_64 0 557568 busy_pageblock_state = Inr st2
         \<and> freed (pageblocks st2 524288) = 3
         \<and> slot_next st2 557568 = 1
         \<and> malloc X86_64 0 16576 st2 = Inr (557568, st3)
         \<and> freed (pageblocks st3 524288) = 1)"
proof -
  have n: "0 < (40::nat)" "40 \<le> MAX_OBJECT_SIZE" by (simp_all add: MAX_OBJECT_SIZE_def)
  have s: "(8388608::nat) \<noteq> 0" "8388608 mod PAGE_SIZE X86_64 = 0"
    "8388608 + SUPERPAGE_SIZE X86_64 \<le> 2 ^ (8 * PTR_BYTES X86_64)"
    by simp_all
  have l: "129 \<le> length (map (\<lambda>i. 33554432 + i * 4096) [0..<129])" by simp
  from malloc_small_fresh_succeeds [OF n s(1) l, of X86_64 0 65536]
  obtain p st1 where m:
    "malloc X86_64 0 40 (fresh (65536 # 8388608 # map (\<lambda>i. 33554432 + i * 4096) [0..<129]))
       = Inr (p, st1)"
    by blast
  define P where "P = example_pageblock 524288 1 4 13"
  have n': "0 < (16576::nat)" "16576 \<le> MAX_OBJECT_SIZE" by (simp_all add: MAX_OBJECT_SIZE_def)
  have "reverse ! 94 = 16576" by (simp add: reverse_value)
  with class_of_reverse [of 94 X86_64]
  have c: "compute_size_class X86_64 16576 = Some 94"
    by (simp add: OBJECT_GRANULARITY_def HEADER_SIZE_def)
  have lh: "local_heap busy_pageblock_state 0 94 = 524288 # []"
    by (simp add: busy_pageblock_state_def fresh_def)
  have pb0: "(524288::nat) \<noteq> 0" by simp
  have Pe: "P = pageblocks busy_pageblock_state 524288"
    by (simp add: busy_pageblock_state_def fresh_def P_def)
  have ex: "object_extract X86_64 557568 0 0 busy_pageblock_state = Inr (524288, 0, OBJECT_SMALL)"
    by (simp add: object_extract_def radix_extract_def radix_lookup_def busy_pageblock_state_def
        fresh_def radix_level1_def radix_level2_def radix_level3_def RADIX_INTERIOR_BITS_def
        RADIX_LEAF_BITS_def RADIX_BITS_def RADIX_DEPTH_def RADIX_INTERIOR_SIZE_def
        RADIX_LEAF_SIZE_def PAGE_PTR_BITS_def)
  have Pf: "object_size P = 16576" "owning_thread P = 0" "slot_count P = 15"
    "num_free_objects P = 13" "freed P = 1" "slot_addr P 3 = 557568"
    by (simp_all add: P_def example_pageblock_def slot_count_def slot_addr_def)
  have fc: "free_compute_size_class X86_64 (object_size P) = Some 94"
    by (simp add: Pf free_compute_size_class_def c)
  have h: "0 < object_size P" "slot_count P < 2 ^ 16" "(1::nat) \<le> 3" "3 \<le> slot_count P"
    "557568 = slot_addr P 3" "(557568::nat) \<noteq> 0" "0 \<le> num_free_objects P"
    "num_free_objects P + 1 \<noteq> int (slot_count P)"
    by (simp_all add: Pf)
  from small_round_trip [OF n s m n' c lh pb0 Pe ex fc Pf(2) h]
  obtain sa sb sc sd where a: "free X86_64 0 p st1 = Inr sa" "malloc X86_64 0 40 sa = Inr (p, sb)"
      "slot_next sb = slot_next sa"
    and b: "free X86_64 0 557568 busy_pageblock_state = Inr sc"
      "pageblocks sc = (pageblocks busy_pageblock_state)
                 (524288 := P\<lparr>freed := 3, num_free_objects := num_free_objects P + 1\<rparr>)"
      "slot_next sc = (slot_next busy_pageblock_state)(557568 := freed P)"
      "malloc X86_64 0 16576 sc = Inr (557568, sd)"
      "pageblocks sd = pageblocks busy_pageblock_state"
    by blast
  have first: "\<exists>p st1 st2 st3.
     malloc X86_64 0 40 (fresh (65536 # 8388608 # map (\<lambda>i. 33554432 + i * 4096) [0..<129]))
       = Inr (p, st1)
     \<and> free X86_64 0 p st1 = Inr st2
     \<and> malloc X86_64 0 40 st2 = Inr (p, st3)
     \<and> slot_next st3 = slot_next st2"
    using m a by blast
  have b': "freed (pageblocks sc 524288) = 3" "slot_next sc 557568 = 1"
    "freed (pageblocks sd 524288) = 1"
    by (simp_all add: b(2,3,5) Pf(5) Pe [symmetric])
  have second: "\<exists>st2 st3. free X86_64 0 557568 busy_pageblock_state = Inr st2
         \<and> freed (pageblocks st2 524288) = 3
         \<and> slot_next st2 557568 = 1
         \<and> malloc X86_64 0 16576 st2 = Inr (557568, st3)
         \<and> freed (pageblocks st3 524288) = 1"
    using b(1,4) b' by blast
  have lh': "local_heap busy_pageblock_state 0 94 = [524288]" by (rule lh)
  have sl: "slot_addr (pageblocks busy_pageblock_state 524288) 3 = 557568"
    "freed (pageblocks busy_pageblock_state 524288) = 1"
    using Pf(5,6) by (simp_all add: Pe)
  from first c lh' ex sl second show ?thesis by (intro conjI)
qed

section \<open>A page provider that fails\<close>
















section \<open>calloc\<close>






section \<open>realloc\<close>

text \<open>
  Claim C9 against the code. A small object is reallocated to a size of another class
  that is at most half of its size: \<^verbatim>\<open>realloc\<close> allocates the new object and calls
  \<^verbatim>\<open>memcpy\<close> with \<^verbatim>\<open>old_size\<close>, the object size of the old pageblock, which is more
  than the new size, and then frees the old object.
\<close>

theorem realloc_shrink_copies_old_size:
  assumes "object \<noteq> 0" and "0 < sz"
    and "object_extract a object 0 0 st = Inr (ptr, 0, OBJECT_SMALL)" and "ptr \<noteq> 0"
    and "old = object_size (pageblocks st ptr)"
    and "compute_size_class a old \<noteq> compute_size_class a sz"
    and "sz \<le> old div 2"
    and "malloc a t sz st = Inr (new, st1)" and "new \<noteq> 0"
  shows "sz < old
     \<and> realloc a t object sz st =
          (case free a t object (st1\<lparr>events := events st1 @ [Memcpy new object old]\<rparr>) of
             Inl e \<Rightarrow> Inl e
           | Inr st2 \<Rightarrow> Inr (new, st2))"
proof -
  have lt: "sz < old" using assms(2,7) by simp
  have "realloc a t object sz st = realloc_small a t object ptr sz st"
    using assms(1,2) by (simp add: realloc_def assms(3))
  also have "\<dots> = (case free a t object (st1\<lparr>events := events st1 @ [Memcpy new object old]\<rparr>) of
             Inl e \<Rightarrow> Inl e
           | Inr st2 \<Rightarrow> Inr (new, st2))"
    using assms(4,6,9,7)
    by (auto simp add: realloc_small_def assms(5) [symmetric] Let_def assms(8) memcpy_def)
  finally show ?thesis using lt by simp
qed

text \<open>On x86-64, \<^verbatim>\<open>realloc(524416, 8)\<close> for the object of 40 bytes of the example: the
  new object is the first of the pageblock of 8-byte objects, and 40 bytes are copied
  into it.\<close>

theorem realloc_shrink_copies_old_size_witness:
  "object_extract X86_64 524416 0 0 shrink_state = Inr (524288, 0, OBJECT_SMALL)
   \<and> object_size (pageblocks shrink_state 524288) = 40
   \<and> compute_size_class X86_64 40 \<noteq> compute_size_class X86_64 8
   \<and> (8::nat) \<le> 40 div 2
   \<and> (\<exists>st1. malloc X86_64 0 8 shrink_state = Inr (1048704, st1)
          \<and> object_size (pageblocks st1 1048576) = 8
          \<and> mem_pool (pageblocks st1 1048576) = 1048704)
   \<and> (\<exists>st2. realloc X86_64 0 524416 8 shrink_state = Inr (1048704, st2)
          \<and> events st2 = [Memcpy 1048704 524416 40])"
proof -
  have r: "reverse ! 1 = 8" "reverse ! 9 = 40" "reverse ! Suc 0 = 8"
    using reverse_value [of 1] reverse_value [of 9] by simp_all
  have c8: "compute_size_class X86_64 8 = Some 1"
    using class_of_reverse [of 1 X86_64] by (simp add: r OBJECT_GRANULARITY_def HEADER_SIZE_def)
  have c40: "compute_size_class X86_64 40 = Some 9"
    using class_of_reverse [of 9 X86_64] by (simp add: r OBJECT_GRANULARITY_def HEADER_SIZE_def)
  have ex: "object_extract X86_64 524416 0 0 shrink_state = Inr (524288, 0, OBJECT_SMALL)"
    by (simp add: object_extract_def radix_extract_def radix_lookup_def shrink_state_def
        fresh_def radix_level1_def radix_level2_def radix_level3_def RADIX_INTERIOR_BITS_def
        RADIX_LEAF_BITS_def RADIX_BITS_def RADIX_DEPTH_def RADIX_INTERIOR_SIZE_def
        RADIX_LEAF_SIZE_def PAGE_PTR_BITS_def)
  have os: "40 = object_size (pageblocks shrink_state 524288)"
    by (simp add: shrink_state_def fresh_def)
  define st1 where "st1 = shrink_state\<lparr>pageblocks := (pageblocks shrink_state)
      (1048576 := (pageblocks shrink_state 1048576)
         \<lparr>unallocated := 2, num_free_objects := 2031\<rparr>)\<rparr>"
  have m: "malloc X86_64 0 8 shrink_state = Inr (1048704, st1)"
    apply (simp add: malloc_def malloc_compute_size_class_def c8 MAX_OBJECT_SIZE_def Let_def
        shrink_state_def fresh_def list_head_def malloc_reserve_def set_pageblock_def st1_def)
    apply (simp add: numeral_2_eq_2)
    done
  have s1: "object_size (pageblocks st1 1048576) = 8" "mem_pool (pageblocks st1 1048576) = 1048704"
    "events st1 = []"
    by (simp_all add: st1_def shrink_state_def fresh_def)
  have ne: "compute_size_class X86_64 40 \<noteq> compute_size_class X86_64 8" by (simp add: c8 c40)
  have h: "(524416::nat) \<noteq> 0" "(0::nat) < 8" "(524288::nat) \<noteq> 0" "(8::nat) \<le> 40 div 2"
    "(1048704::nat) \<noteq> 0"
    by simp_all
  define st1' where "st1' = st1\<lparr>events := events st1 @ [Memcpy 1048704 524416 40]\<rparr>"
  define PA where "PA = pageblocks st1' 524288"
  have lk: "radix_lookup X86_64 (524416 div 2 ^ PAGE_BITS X86_64) st1' = Some (Small 128)"
    by (simp add: radix_lookup_def shrink_state_def
        fresh_def radix_level1_def radix_level2_def radix_level3_def RADIX_INTERIOR_BITS_def
        RADIX_LEAF_BITS_def RADIX_BITS_def RADIX_DEPTH_def RADIX_INTERIOR_SIZE_def
        RADIX_LEAF_SIZE_def PAGE_PTR_BITS_def st1'_def st1_def)
  have PA: "object_size PA = 40" "owning_thread PA = 0" "num_free_objects PA = 1634"
    "mem_pool_size PA = 65408" "mem_pool PA = 524416"
    by (simp_all add: PA_def st1'_def st1_def shrink_state_def fresh_def)
  have pi: "pageblock_size_index X86_64 65536 = Inr 2"
    using pageblock_size_index_pages [of 4 X86_64] by simp
  have f: "128 * 2 ^ PAGE_BITS X86_64 = (524288::nat)" "(524288::nat) \<noteq> 0"
    "free_compute_size_class X86_64 (object_size PA) = Some 9"
    "num_free_objects PA + 1 = int (mem_pool_size PA div object_size PA)"
    "pageblock_size_index X86_64 (mem_pool_size PA + mem_pool PA - 524288) = Inr 2"
    "snd (local_inactive_pageblocks st1' 0 2) < MAX_PRIVATE_INACTIVE"
    by (simp_all add: PA free_compute_size_class_def c40 pi MAX_PRIVATE_INACTIVE_def)
      (simp add: st1'_def st1_def shrink_state_def fresh_def)
  note fl = free_local_last [OF h(1) lk f(1,2) PA_def [symmetric] f(3) PA(2) f(4,5,6)]
  have ev: "events st1' = [Memcpy 1048704 524416 40]"
    by (simp add: st1'_def s1)
  have fr: "\<exists>st2. free X86_64 0 524416 st1' = Inr st2 \<and> events st2 = [Memcpy 1048704 524416 40]"
    unfolding fl by (simp add: ev)
  from realloc_shrink_copies_old_size [OF h(1,2) ex h(3) os ne h(4) m h(5)] fr
  have "\<exists>st2. realloc X86_64 0 524416 8 shrink_state = Inr (1048704, st2)
          \<and> events st2 = [Memcpy 1048704 524416 40]"
    by (auto simp add: st1'_def)
  with ex os ne h(4) m s1 show ?thesis by auto
qed

end
